theory Spec2Isabelle
  imports Complex_Main "HOL-Library.Multiset"
begin

section \<open>Data model\<close>

text \<open>
  The development embeds two parts of the service: the handler \<^verbatim>\<open>getTotalUsage\<close> of
  \<^verbatim>\<open>clusterUsage.go\<close> (scope resolution, inventory filter, the semaphore-bounded worker
  fan-out and the response) and \<^verbatim>\<open>CalculateCPUUsage\<close> of \<^verbatim>\<open>billing.go\<close>.

  Conventions. A Go \<^verbatim>\<open>error\<close> is the text it prints. A Go \<^verbatim>\<open>float64\<close> is a \<^typ>\<open>real\<close>:
  sums, quotients and comparisons are the exact ones, so rounding, infinities and NaN are
  outside the model. A struct is a record whose fields carry a short prefix, since several
  structs of the source share field names.
\<close>

type_synonym go_error = string

record UsageError =
  ue_DomainName :: string
  ue_InstanceID :: string
  ue_ProjectID :: string
  ue_Error :: string

record TotalUsage =
  tu_Timestamp :: string
  tu_TotalVMs :: nat
  tu_CPUCoresUsed :: real
  tu_RAMUsedGB :: real
  tu_Errors :: "UsageError list"

record MetricMeasure =
  mm_Timestamp :: string
  mm_Granularity :: real
  mm_Value :: real

record GnocchiInstance =
  gi_ID :: string
  gi_DisplayName :: string
  gi_Metrics :: "string \<rightharpoonup> string"
  gi_ProjectID :: string

record KeystoneProject =
  kp_ID :: string
  kp_Name :: string
  kp_DomainID :: string

text \<open>The local struct \<^verbatim>\<open>instanceWithDomain\<close> of the handler.\<close>

record instanceWithDomain =
  t_Instance :: GnocchiInstance
  t_DomainName :: string

text \<open>What \<^verbatim>\<open>os.Open\<close> and the \<^verbatim>\<open>bufio.Scanner\<close> deliver for the domain file: the open
  fails, or the scanner yields lines and then reports \<^verbatim>\<open>scanner.Err()\<close>.\<close>

datatype file_read = OpenFailed go_error | Scanned "string list" "go_error option"

text \<open>
  Everything one request receives from outside. Each upstream call is a field holding the
  answer the call gets; \<open>env_GetMetricMeasures i m\<close> is the answer to the call that the
  worker of the \<open>i\<close>-th target makes for series id \<open>m\<close>, \<open>env_ctxErr_resolving k\<close> is
  \<^verbatim>\<open>ctx.Err()\<close> as the \<open>k\<close>-th iteration of the domain loop reads it, and
  \<open>env_ctxErr_dispatch\<close> is \<^verbatim>\<open>ctx.Err()\<close> at the moment the workers are started. A Go
  context that is cancelled stays so; the results below do not need this of the
  environment and hold for every one. The body that \<^verbatim>\<open>http.Error\<close> writes is kept
  without its final newline.
\<close>

record environment =
  env_DOMAINS_FILE :: string
  env_open :: "string \<Rightarrow> file_read"
  env_TrimSpace :: "string \<Rightarrow> string"
  env_GetAdminToken :: "go_error + string"
  env_ctxErr_resolving :: "nat \<Rightarrow> go_error option"
  env_ListProjectsForDomainName :: "string \<Rightarrow> string \<Rightarrow> go_error + KeystoneProject list"
  env_GetAllInstances :: "go_error + GnocchiInstance list"
  env_ctxErr_dispatch :: "go_error option"
  env_GetMetricMeasures :: "nat \<Rightarrow> string \<Rightarrow> go_error + MetricMeasure list"
  env_now :: string

section \<open>The worker fan-out of getTotalUsage\<close>

text \<open>
  Control points of one worker goroutine: before the send on the semaphore channel, permit
  held and about to read \<^verbatim>\<open>ctx.Err()\<close>, before the \<^verbatim>\<open>vcpus\<close> block, before the
  \<^verbatim>\<open>memory\<close> block, body left with the deferred calls pending, and gone. The flag of the
  last two records whether the body was left through the \<^verbatim>\<open>return\<close> of the cancellation
  branch.
\<close>

datatype pc = Blocked | Acquired | AtVcpus | AtMemory | Returning bool | Exited bool

text \<open>
  The state shared by the workers: the number of elements buffered in the channel
  \<^verbatim>\<open>semaphore\<close>, the context's error, the two totals, the error list and the workers'
  control points. \<open>measureCalls\<close> is a history variable: the calls of
  \<^verbatim>\<open>GetMetricMeasures\<close> made so far, each with the index of the calling worker.
\<close>

record agg_state =
  semaphore :: nat
  ctxErr :: "go_error option"
  totalCPUCoresUsed :: real
  totalRAMUsedGB :: real
  usageErrors :: "UsageError list"
  workers :: "pc list"
  measureCalls :: "(nat \<times> string) list"

text \<open>\<^verbatim>\<open>make(chan struct{}, 10)\<close>\<close>

definition semaphoreCapacity :: nat where
  "semaphoreCapacity = 10"

text \<open>How \<^verbatim>\<open>%v\<close> prints an error value.\<close>

definition fmt_v :: "go_error option \<Rightarrow> string" where
  "fmt_v e = (case e of None \<Rightarrow> ''<nil>'' | Some msg \<Rightarrow> msg)"

definition cancelError :: "go_error option \<Rightarrow> instanceWithDomain \<Rightarrow> UsageError" where
  "cancelError e t =
     \<lparr>ue_DomainName = t_DomainName t,
      ue_InstanceID = gi_ID (t_Instance t),
      ue_ProjectID = gi_ProjectID (t_Instance t),
      ue_Error = ''context cancelled while processing instance: '' @ fmt_v e\<rparr>"

definition measuresError :: "string \<Rightarrow> instanceWithDomain \<Rightarrow> go_error \<Rightarrow> UsageError" where
  "measuresError what t err =
     \<lparr>ue_DomainName = t_DomainName t,
      ue_InstanceID = gi_ID (t_Instance t),
      ue_ProjectID = gi_ProjectID (t_Instance t),
      ue_Error = ''failed to get '' @ what @ '' measures: '' @ err\<rparr>"

definition setPc :: "nat \<Rightarrow> pc \<Rightarrow> agg_state \<Rightarrow> agg_state" where
  "setPc i p s = s\<lparr>workers := (workers s)[i := p]\<rparr>"

definition pcAt :: "agg_state \<Rightarrow> nat \<Rightarrow> pc option" where
  "pcAt s i = (if i < length (workers s) then Some (workers s ! i) else None)"

text \<open>The check of the context at the start of the worker body.\<close>

definition checkCtx :: "nat \<Rightarrow> instanceWithDomain \<Rightarrow> agg_state \<Rightarrow> agg_state" where
  "checkCtx i t s =
     (case ctxErr s of
        Some e \<Rightarrow>
          setPc i (Returning True)
            (s\<lparr>usageErrors := usageErrors s @ [cancelError (ctxErr s) t]\<rparr>)
      | None \<Rightarrow> setPc i AtVcpus s)"

text \<open>The block of the \<^verbatim>\<open>vcpus\<close> metric: look the series id up, fetch, then either record the
  failure, add the value of the last measure, or (no data points) do nothing.\<close>

definition vcpusPhase :: "environment \<Rightarrow> nat \<Rightarrow> instanceWithDomain \<Rightarrow> agg_state \<Rightarrow> agg_state" where
  "vcpusPhase env i t s =
     (case gi_Metrics (t_Instance t) ''vcpus'' of
        Some vcpuMetricID \<Rightarrow>
          (let s1 = s\<lparr>measureCalls := measureCalls s @ [(i, vcpuMetricID)]\<rparr> in
           case env_GetMetricMeasures env i vcpuMetricID of
             Inl err \<Rightarrow> s1\<lparr>usageErrors := usageErrors s1 @ [measuresError ''vcpus'' t err]\<rparr>
           | Inr vcpuMeasures \<Rightarrow>
               if length vcpuMeasures > 0
               then s1\<lparr>totalCPUCoresUsed :=
                         totalCPUCoresUsed s1
                           + mm_Value (vcpuMeasures ! (length vcpuMeasures - 1))\<rparr>
               else s1)
      | None \<Rightarrow> s)"

text \<open>The block of the \<^verbatim>\<open>memory\<close> metric; the value is in MB and is added in GB.\<close>

definition memoryPhase :: "environment \<Rightarrow> nat \<Rightarrow> instanceWithDomain \<Rightarrow> agg_state \<Rightarrow> agg_state" where
  "memoryPhase env i t s =
     (case gi_Metrics (t_Instance t) ''memory'' of
        Some memMetricID \<Rightarrow>
          (let s1 = s\<lparr>measureCalls := measureCalls s @ [(i, memMetricID)]\<rparr> in
           case env_GetMetricMeasures env i memMetricID of
             Inl err \<Rightarrow> s1\<lparr>usageErrors := usageErrors s1 @ [measuresError ''memory'' t err]\<rparr>
           | Inr memMeasures \<Rightarrow>
               if length memMeasures > 0
               then s1\<lparr>totalRAMUsedGB :=
                         totalRAMUsedGB s1
                           + mm_Value (memMeasures ! (length memMeasures - 1)) / 1024\<rparr>
               else s1)
      | None \<Rightarrow> s)"

text \<open>
  One atomic step of the fan-out. A worker's step joins its local computation with the one
  update of the shared variables that it makes under a mutex. \<open>Acquire\<close> is the send on the
  buffered channel, possible only while the buffer is not full; \<open>Release\<close> is the deferred
  receive followed by \<^verbatim>\<open>wg.Done()\<close>; \<open>CtxDone\<close> is the context being cancelled or reaching
  its deadline, which happens at most once. A step that is not possible yields \<open>None\<close>.
\<close>

datatype event =
  Acquire nat | CheckCtx nat | Vcpus nat | Memory nat | Release nat | CtxDone go_error

fun step :: "environment \<Rightarrow> instanceWithDomain list \<Rightarrow> event \<Rightarrow> agg_state \<Rightarrow> agg_state option" where
  "step env ts (Acquire i) s =
     (if i < length ts \<and> pcAt s i = Some Blocked \<and> semaphore s < semaphoreCapacity
      then Some (setPc i Acquired (s\<lparr>semaphore := semaphore s + 1\<rparr>)) else None)"
| "step env ts (CheckCtx i) s =
     (if i < length ts \<and> pcAt s i = Some Acquired
      then Some (checkCtx i (ts ! i) s) else None)"
| "step env ts (Vcpus i) s =
     (if i < length ts \<and> pcAt s i = Some AtVcpus
      then Some (setPc i AtMemory (vcpusPhase env i (ts ! i) s)) else None)"
| "step env ts (Memory i) s =
     (if i < length ts \<and> pcAt s i = Some AtMemory
      then Some (setPc i (Returning False) (memoryPhase env i (ts ! i) s)) else None)"
| "step env ts (Release i) s =
     (case pcAt s i of
        Some (Returning b) \<Rightarrow>
          if i < length ts then Some (setPc i (Exited b) (s\<lparr>semaphore := semaphore s - 1\<rparr>))
          else None
      | _ \<Rightarrow> None)"
| "step env ts (CtxDone e) s =
     (if ctxErr s = None then Some (s\<lparr>ctxErr := Some e\<rparr>) else None)"

text \<open>A schedule is the order in which the steps happen; \<open>run\<close> follows it.\<close>

fun run :: "environment \<Rightarrow> instanceWithDomain list \<Rightarrow> event list \<Rightarrow> agg_state \<Rightarrow> agg_state option" where
  "run env ts [] s = Some s"
| "run env ts (e # es) s =
     (case step env ts e s of None \<Rightarrow> None | Some s' \<Rightarrow> run env ts es s')"

text \<open>The state when the goroutines have been started: one blocked worker per target, an
  empty channel, zero totals, and the errors of the scope resolution.\<close>

definition dispatch :: "UsageError list \<Rightarrow> go_error option \<Rightarrow> instanceWithDomain list \<Rightarrow> agg_state" where
  "dispatch errs c ts =
     \<lparr>semaphore = 0, ctxErr = c, totalCPUCoresUsed = 0, totalRAMUsedGB = 0,
      usageErrors = errs, workers = replicate (length ts) Blocked, measureCalls = []\<rparr>"

text \<open>\<^verbatim>\<open>wg.Wait()\<close> returns when every worker has called \<^verbatim>\<open>wg.Done()\<close>.\<close>

definition isExited :: "pc \<Rightarrow> bool" where
  "isExited p = (case p of Exited b \<Rightarrow> True | _ \<Rightarrow> False)"

definition waitReturns :: "agg_state \<Rightarrow> bool" where
  "waitReturns s = list_all isExited (workers s)"

text \<open>The response that follows \<^verbatim>\<open>wg.Wait()\<close>: status 206 when the error list is not empty,
  otherwise the default 200.\<close>

datatype http_response = PlainError nat string | JSON nat TotalUsage

definition respond :: "environment \<Rightarrow> nat \<Rightarrow> agg_state \<Rightarrow> http_response" where
  "respond env totalVMs s =
     JSON (if length (usageErrors s) > 0 then 206 else 200)
       \<lparr>tu_Timestamp = env_now env,
        tu_TotalVMs = totalVMs,
        tu_CPUCoresUsed = totalCPUCoresUsed s,
        tu_RAMUsedGB = totalRAMUsedGB s,
        tu_Errors = usageErrors s\<rparr>"

text \<open>
  The second half of the handler, from the start of the goroutines on. The result is the
  response together with the history of metric calls; it is \<open>None\<close> when the schedule is
  not a run of the workers at whose end \<^verbatim>\<open>wg.Wait()\<close> returns.
\<close>

definition aggregate ::
  "environment \<Rightarrow> UsageError list \<Rightarrow> instanceWithDomain list \<Rightarrow> event list
    \<Rightarrow> (http_response \<times> (nat \<times> string) list) option" where
  "aggregate env errs targets sched =
     (case run env targets sched (dispatch errs (env_ctxErr_dispatch env) targets) of
        None \<Rightarrow> None
      | Some s \<Rightarrow>
          if waitReturns s then Some (respond env (length targets) s, measureCalls s)
          else None)"

section \<open>Scope resolution and the handler\<close>

definition HasPrefix :: "string \<Rightarrow> string \<Rightarrow> bool" where
  "HasPrefix s p = (take (length p) s = p)"

text \<open>\<^verbatim>\<open>LoadDomainNames\<close> of \<^verbatim>\<open>auth.go\<close>; \<^verbatim>\<open>strings.TrimSpace\<close> is the environment's.\<close>

definition LoadDomainNames :: "environment \<Rightarrow> string \<Rightarrow> go_error + string list" where
  "LoadDomainNames env path =
     (case env_open env path of
        OpenFailed err \<Rightarrow> Inl err
      | Scanned scanned scanErr \<Rightarrow>
          (let domains =
                 filter (\<lambda>line. \<not> (line = [] \<or> HasPrefix line ''#''))
                   (map (env_TrimSpace env) scanned)
           in case scanErr of Some err \<Rightarrow> Inl err | None \<Rightarrow> Inr domains))"

definition domainError :: "string \<Rightarrow> string \<Rightarrow> UsageError" where
  "domainError domainName msg =
     \<lparr>ue_DomainName = domainName, ue_InstanceID = [], ue_ProjectID = [], ue_Error = msg\<rparr>"

text \<open>
  The loop over the domain names, from iteration \<open>k\<close> on, with the map
  \<^verbatim>\<open>projectToDomain\<close> and the error list built so far. A cancelled context ends the loop
  with one error; a domain that fails or has no project leaves one error and the loop goes
  on; otherwise each project of the domain is entered in the map.
\<close>

fun resolveDomains ::
  "environment \<Rightarrow> string \<Rightarrow> nat \<Rightarrow> string list \<Rightarrow> (string \<rightharpoonup> string) \<times> UsageError list
    \<Rightarrow> (string \<rightharpoonup> string) \<times> UsageError list" where
  "resolveDomains env adminToken k [] acc = acc"
| "resolveDomains env adminToken k (domainName # rest) (projectToDomain, errs) =
     (case env_ctxErr_resolving env k of
        Some e \<Rightarrow>
          (projectToDomain,
           errs @ [domainError domainName
                     (''context cancelled while resolving domain: '' @ e)])
      | None \<Rightarrow>
          (case env_ListProjectsForDomainName env adminToken domainName of
             Inl err \<Rightarrow>
               resolveDomains env adminToken (Suc k) rest
                 (projectToDomain,
                  errs @ [domainError domainName
                            (''failed to list projects for domain: '' @ err)])
           | Inr projects \<Rightarrow>
               if length projects = 0
               then resolveDomains env adminToken (Suc k) rest
                      (projectToDomain,
                       errs @ [domainError domainName ''no projects found for domain''])
               else resolveDomains env adminToken (Suc k) rest
                      (fold (\<lambda>p m. m(kp_ID p \<mapsto> domainName)) projects projectToDomain,
                       errs)))"

text \<open>The filter of the inventory by the map from project to domain.\<close>

definition scopeTargets ::
  "(string \<rightharpoonup> string) \<Rightarrow> GnocchiInstance list \<Rightarrow> instanceWithDomain list" where
  "scopeTargets projectToDomain instances =
     List.map_filter
       (\<lambda>inst. case projectToDomain (gi_ProjectID inst) of
                 Some domainName \<Rightarrow> Some \<lparr>t_Instance = inst, t_DomainName = domainName\<rparr>
               | None \<Rightarrow> None)
       instances"

text \<open>The handler of \<^verbatim>\<open>GET /usage/total\<close>. A failure before the fan-out answers through
  \<^verbatim>\<open>http.Error\<close> and returns; no metric call has been made then.\<close>

definition getTotalUsage ::
  "environment \<Rightarrow> event list \<Rightarrow> (http_response \<times> (nat \<times> string) list) option" where
  "getTotalUsage env sched =
     (let domainFile = env_DOMAINS_FILE env in
      case LoadDomainNames env domainFile of
        Inl err \<Rightarrow>
          Some (PlainError 500
                  (''failed to load domain list from '' @ domainFile @ '': '' @ err), [])
      | Inr domainNames \<Rightarrow>
          if length domainNames = 0
          then Some (PlainError 400 ''no domains configured in domain.txt'', [])
          else
            (case env_GetAdminToken env of
               Inl err \<Rightarrow> Some (PlainError 401 (''failed to authenticate admin: '' @ err), [])
             | Inr adminToken \<Rightarrow>
                 (case resolveDomains env adminToken 0 domainNames (Map.empty, []) of
                    (projectToDomain, errs) \<Rightarrow>
                      (case env_GetAllInstances env of
                         Inl err \<Rightarrow>
                           Some (PlainError 500
                                   (''Failed to get instances from Gnocchi: '' @ err), [])
                       | Inr instances \<Rightarrow>
                           aggregate env errs (scopeTargets projectToDomain instances) sched))))"

definition statusOf :: "http_response \<Rightarrow> nat" where
  "statusOf r = (case r of PlainError c msg \<Rightarrow> c | JSON c body \<Rightarrow> c)"

section \<open>What a worker has contributed\<close>

text \<open>
  The effect of each metric block, read off the answer to its call: the amount added to a
  total, the errors appended, the calls made. They state the results below; the blocks
  themselves are \<open>vcpusPhase\<close> and \<open>memoryPhase\<close>.
\<close>

definition metricReply ::
  "environment \<Rightarrow> string \<Rightarrow> nat \<Rightarrow> instanceWithDomain \<Rightarrow> (go_error + MetricMeasure list) option" where
  "metricReply env key i t =
     map_option (env_GetMetricMeasures env i) (gi_Metrics (t_Instance t) key)"

definition latestValue :: "(go_error + MetricMeasure list) option \<Rightarrow> real option" where
  "latestValue r =
     (case r of Some (Inr ms) \<Rightarrow> if ms = [] then None else Some (mm_Value (last ms))
      | _ \<Rightarrow> None)"

definition fetchFailure :: "(go_error + MetricMeasure list) option \<Rightarrow> go_error option" where
  "fetchFailure r = (case r of Some (Inl err) \<Rightarrow> Some err | _ \<Rightarrow> None)"

definition vcpusAdded :: "environment \<Rightarrow> nat \<Rightarrow> instanceWithDomain \<Rightarrow> real" where
  "vcpusAdded env i t =
     (case latestValue (metricReply env ''vcpus'' i t) of Some v \<Rightarrow> v | None \<Rightarrow> 0)"

definition memoryAdded :: "environment \<Rightarrow> nat \<Rightarrow> instanceWithDomain \<Rightarrow> real" where
  "memoryAdded env i t =
     (case latestValue (metricReply env ''memory'' i t) of Some v \<Rightarrow> v / 1024 | None \<Rightarrow> 0)"

definition metricErrors ::
  "environment \<Rightarrow> string \<Rightarrow> nat \<Rightarrow> instanceWithDomain \<Rightarrow> UsageError list" where
  "metricErrors env key i t =
     (case fetchFailure (metricReply env key i t) of
        Some err \<Rightarrow> [measuresError key t err] | None \<Rightarrow> [])"

definition metricCalls :: "string \<Rightarrow> nat \<Rightarrow> instanceWithDomain \<Rightarrow> (nat \<times> string) list" where
  "metricCalls key i t =
     (case gi_Metrics (t_Instance t) key of Some m \<Rightarrow> [(i, m)] | None \<Rightarrow> [])"

text \<open>Classes of control points: a permit is held; the \<^verbatim>\<open>vcpus\<close> block is behind; the
  \<^verbatim>\<open>memory\<close> block is behind; the body was left through the cancellation branch.\<close>

definition holding :: "pc \<Rightarrow> bool" where
  "holding p = (case p of Blocked \<Rightarrow> False | Exited b \<Rightarrow> False | _ \<Rightarrow> True)"

definition pastVcpus :: "pc \<Rightarrow> bool" where
  "pastVcpus p = (p = AtMemory \<or> p = Returning False \<or> p = Exited False)"

definition pastMemory :: "pc \<Rightarrow> bool" where
  "pastMemory p = (p = Returning False \<or> p = Exited False)"

definition tookCancel :: "pc \<Rightarrow> bool" where
  "tookCancel p = (p = Returning True \<or> p = Exited True)"

text \<open>\<open>tally f xs ps\<close> sums \<open>f x p\<close> over the targets \<open>x\<close>, each with the control point \<open>p\<close>
  of its worker.\<close>

definition tally :: "('t \<Rightarrow> pc \<Rightarrow> 'a::comm_monoid_add) \<Rightarrow> 't list \<Rightarrow> pc list \<Rightarrow> 'a" where
  "tally f xs ps = sum_list (map2 f xs ps)"

definition cpuDone :: "environment \<Rightarrow> nat \<times> instanceWithDomain \<Rightarrow> pc \<Rightarrow> real" where
  "cpuDone env x p = (if pastVcpus p then vcpusAdded env (fst x) (snd x) else 0)"

definition ramDone :: "environment \<Rightarrow> nat \<times> instanceWithDomain \<Rightarrow> pc \<Rightarrow> real" where
  "ramDone env x p = (if pastMemory p then memoryAdded env (fst x) (snd x) else 0)"

definition errsDone ::
  "environment \<Rightarrow> go_error option \<Rightarrow> nat \<times> instanceWithDomain \<Rightarrow> pc \<Rightarrow> UsageError multiset" where
  "errsDone env c x p =
     (if tookCancel p then {#cancelError c (snd x)#}
      else (if pastVcpus p then mset (metricErrors env ''vcpus'' (fst x) (snd x)) else {#})
         + (if pastMemory p then mset (metricErrors env ''memory'' (fst x) (snd x)) else {#}))"

definition callsDone :: "nat \<times> instanceWithDomain \<Rightarrow> pc \<Rightarrow> (nat \<times> string) multiset" where
  "callsDone x p =
     (if pastVcpus p then mset (metricCalls ''vcpus'' (fst x) (snd x)) else {#})
   + (if pastMemory p then mset (metricCalls ''memory'' (fst x) (snd x)) else {#})"

text \<open>The invariant of the fan-out, for the targets \<open>ts\<close> and the errors \<open>errs\<close> that the
  scope resolution left.\<close>

definition fanout_inv ::
  "environment \<Rightarrow> instanceWithDomain list \<Rightarrow> UsageError list \<Rightarrow> agg_state \<Rightarrow> bool" where
  "fanout_inv env ts errs s =
     (length (workers s) = length ts
      \<and> semaphore s = length (filter holding (workers s))
      \<and> semaphore s \<le> semaphoreCapacity
      \<and> totalCPUCoresUsed s = tally (cpuDone env) (enumerate 0 ts) (workers s)
      \<and> totalRAMUsedGB s = tally (ramDone env) (enumerate 0 ts) (workers s)
      \<and> mset (usageErrors s)
          = mset errs + tally (errsDone env (ctxErr s)) (enumerate 0 ts) (workers s)
      \<and> mset (measureCalls s) = tally callsDone (enumerate 0 ts) (workers s)
      \<and> (list_ex tookCancel (workers s) \<longrightarrow> ctxErr s \<noteq> None))"

text \<open>An upper bound of the number of steps still possible.\<close>

definition pcRank :: "pc \<Rightarrow> nat" where
  "pcRank p =
     (case p of Blocked \<Rightarrow> 5 | Acquired \<Rightarrow> 4 | AtVcpus \<Rightarrow> 3 | AtMemory \<Rightarrow> 2
      | Returning b \<Rightarrow> 1 | Exited b \<Rightarrow> 0)"

definition stepsLeft :: "agg_state \<Rightarrow> nat" where
  "stepsLeft s = sum_list (map pcRank (workers s)) + (if ctxErr s = None then 1 else 0)"

text \<open>The event is the context being cancelled.\<close>

definition isCtxDone :: "event \<Rightarrow> bool" where
  "isCtxDone e = (case e of CtxDone c \<Rightarrow> True | _ \<Rightarrow> False)"

text \<open>The control points a worker can reach once the context is cancelled.\<close>

definition cancelOnly :: "pc \<Rightarrow> bool" where
  "cancelOnly p = (p = Blocked \<or> p = Acquired \<or> tookCancel p)"

text \<open>The target without one metric key, and two target lists whose workers have the same
  effect on the totals and the error list.\<close>

definition dropMetric :: "string \<Rightarrow> instanceWithDomain \<Rightarrow> instanceWithDomain" where
  "dropMetric key t =
     t\<lparr>t_Instance := (t_Instance t)\<lparr>gi_Metrics := (gi_Metrics (t_Instance t))(key := None)\<rparr>\<rparr>"

definition sameEffects ::
  "environment \<Rightarrow> instanceWithDomain list \<Rightarrow> instanceWithDomain list \<Rightarrow> bool" where
  "sameEffects env ts ts' =
     (length ts' = length ts
      \<and> (\<forall>i < length ts.
            vcpusAdded env i (ts' ! i) = vcpusAdded env i (ts ! i)
          \<and> memoryAdded env i (ts' ! i) = memoryAdded env i (ts ! i)
          \<and> metricErrors env ''vcpus'' i (ts' ! i) = metricErrors env ''vcpus'' i (ts ! i)
          \<and> metricErrors env ''memory'' i (ts' ! i) = metricErrors env ''memory'' i (ts ! i)
          \<and> (\<forall>c. cancelError c (ts' ! i) = cancelError c (ts ! i))))"

text \<open>The status with which the handler gives up before the fan-out, if it does: the domain
  list cannot be read (500) or is empty (400), the admin token is refused (401), the
  inventory cannot be fetched (500).\<close>

definition fatalStatus :: "environment \<Rightarrow> nat option" where
  "fatalStatus env =
     (case LoadDomainNames env (env_DOMAINS_FILE env) of
        Inl err \<Rightarrow> Some 500
      | Inr domainNames \<Rightarrow>
          if domainNames = [] then Some 400
          else (case env_GetAdminToken env of
                  Inl err \<Rightarrow> Some 401
                | Inr adminToken \<Rightarrow>
                    (case env_GetAllInstances env of Inl err \<Rightarrow> Some 500 | Inr instances \<Rightarrow> None)))"

section \<open>The CPU statistics of billing\<close>
























section \<open>Concrete inputs\<close>

text \<open>An environment, targets and schedules on which the results below are evaluated.\<close>

definition demoSeries :: "real \<Rightarrow> go_error + MetricMeasure list" where
  "demoSeries v =
     Inr [\<lparr>mm_Timestamp = ''2024-01-01T00:00:00+00:00'', mm_Granularity = 300, mm_Value = 0\<rparr>,
          \<lparr>mm_Timestamp = ''2024-01-01T00:05:00+00:00'', mm_Granularity = 300, mm_Value = v\<rparr>]"

definition demoInstance :: "string \<Rightarrow> (string \<rightharpoonup> string) \<Rightarrow> GnocchiInstance" where
  "demoInstance name metrics =
     \<lparr>gi_ID = name, gi_DisplayName = name, gi_Metrics = metrics, gi_ProjectID = ''p1''\<rparr>"

definition demoTarget :: "string \<Rightarrow> (string \<rightharpoonup> string) \<Rightarrow> instanceWithDomain" where
  "demoTarget name metrics = \<lparr>t_Instance = demoInstance name metrics, t_DomainName = ''acme''\<rparr>"

definition demoEnv :: "(nat \<Rightarrow> string \<Rightarrow> go_error + MetricMeasure list) \<Rightarrow> environment" where
  "demoEnv replies =
     \<lparr>env_DOMAINS_FILE = ''domain.txt'',
      env_open = (\<lambda>path. Scanned [''# domains'', ''acme''] None),
      env_TrimSpace = (\<lambda>line. line),
      env_GetAdminToken = Inr ''token'',
      env_ctxErr_resolving = (\<lambda>k. None),
      env_ListProjectsForDomainName =
        (\<lambda>token domainName. Inr [\<lparr>kp_ID = ''p1'', kp_Name = ''project'', kp_DomainID = ''d1''\<rparr>]),
      env_GetAllInstances = Inr [],
      env_ctxErr_dispatch = None,
      env_GetMetricMeasures = replies,
      env_now = ''2024-01-01T00:10:00Z''\<rparr>"

text \<open>One worker after the other, each through all of its steps.\<close>

definition oneByOne :: "nat \<Rightarrow> event list" where
  "oneByOne n = concat (map (\<lambda>i. [Acquire i, CheckCtx i, Vcpus i, Memory i, Release i]) [0..<n])"

definition vmA :: instanceWithDomain where
  "vmA = demoTarget ''vm-a'' [''vcpus'' \<mapsto> ''a-vcpus'', ''memory'' \<mapsto> ''a-memory'']"

definition vmB :: instanceWithDomain where
  "vmB = demoTarget ''vm-b'' [''vcpus'' \<mapsto> ''b-vcpus'']"

definition repliesAB :: "nat \<Rightarrow> string \<Rightarrow> go_error + MetricMeasure list" where
  "repliesAB i m =
     (if m = ''a-vcpus'' then demoSeries 1.5
      else if m = ''a-memory'' then demoSeries 2048
      else if m = ''b-vcpus'' then demoSeries 2
      else Inl ''not found'')"

definition metricFails :: "environment \<Rightarrow> string \<Rightarrow> nat \<times> instanceWithDomain \<Rightarrow> bool" where
  "metricFails env key x = (fetchFailure (metricReply env key (fst x) (snd x)) \<noteq> None)"

definition interleaved :: "event list" where
  "interleaved =
     [Acquire 0, Acquire 1, CheckCtx 1, CheckCtx 0, Vcpus 1, Vcpus 0, Memory 0, Release 0,
      Memory 1, Release 1]"

definition finalAB :: agg_state where
  "finalAB =
     \<lparr>semaphore = 0, ctxErr = None, totalCPUCoresUsed = 7 / 2, totalRAMUsedGB = 2,
      usageErrors = [], workers = [Exited False, Exited False],
      measureCalls = [(1, ''b-vcpus''), (0, ''a-vcpus''), (0, ''a-memory'')]\<rparr>"

definition vmHalf :: instanceWithDomain where
  "vmHalf = demoTarget ''vm-c'' [''vcpus'' \<mapsto> ''c-vcpus'', ''memory'' \<mapsto> ''c-memory'']"

definition repliesHalf :: "nat \<Rightarrow> string \<Rightarrow> go_error + MetricMeasure list" where
  "repliesHalf i m = (if m = ''c-vcpus'' then demoSeries 1.5 else Inl ''timeout'')"

definition finalHalf :: agg_state where
  "finalHalf =
     \<lparr>semaphore = 0, ctxErr = None, totalCPUCoresUsed = 3 / 2, totalRAMUsedGB = 0,
      usageErrors = [measuresError ''memory'' vmHalf ''timeout''], workers = [Exited False],
      measureCalls = [(0, ''c-vcpus''), (0, ''c-memory'')]\<rparr>"

definition expiredEnv :: environment where
  "expiredEnv = (demoEnv repliesAB)\<lparr>env_ctxErr_dispatch := Some ''context deadline exceeded''\<rparr>"

definition cancelledOneByOne :: "nat \<Rightarrow> event list" where
  "cancelledOneByOne n = concat (map (\<lambda>i. [Acquire i, CheckCtx i, Release i]) [0..<n])"

definition vmCpuOnly :: instanceWithDomain where
  "vmCpuOnly = demoTarget ''vm'' [''vcpus'' \<mapsto> ''series'']"

definition replies10 :: "nat \<Rightarrow> string \<Rightarrow> go_error + MetricMeasure list" where
  "replies10 i m = (if i < 3 then Inl ''timeout'' else demoSeries (real i))"

definition vmEmpty :: instanceWithDomain where
  "vmEmpty = demoTarget ''vm-e'' [''vcpus'' \<mapsto> ''e-vcpus'', ''memory'' \<mapsto> ''e-memory'']"

definition repliesEmpty :: "nat \<Rightarrow> string \<Rightarrow> go_error + MetricMeasure list" where
  "repliesEmpty i m = (if m = ''e-vcpus'' then demoSeries 4 else Inr [])"

definition unresolvedEnv :: environment where
  "unresolvedEnv =
     (demoEnv repliesAB)
       \<lparr>env_ListProjectsForDomainName :=
          (\<lambda>token domainName. Inl ''domains request returned status 404''),
        env_GetAllInstances := Inr [t_Instance vmA, t_Instance vmB]\<rparr>"

definition noDomainsEnv :: environment where
  "noDomainsEnv = (demoEnv repliesAB)\<lparr>env_open := (\<lambda>path. Scanned [''# none yet'', ''''] None)\<rparr>"

definition fullEnv :: environment where
  "fullEnv = (demoEnv repliesAB)\<lparr>env_GetAllInstances := Inr [t_Instance vmA, t_Instance vmB]\<rparr>"




section \<open>Properties of the fan-out\<close>

subsection \<open>Sums over the workers\<close>

lemma tally_update_add:
  "i < length xs \<Longrightarrow> i < length ps \<Longrightarrow> f (xs ! i) p = f (xs ! i) (ps ! i) + d
    \<Longrightarrow> tally f xs (ps[i := p]) = tally f xs ps + d"
proof (induction xs arbitrary: ps i)
  case Nil
  then show ?case by simp
next
  case (Cons x xs)
  then obtain q qs where ps: "ps = q # qs" by (cases ps) auto
  show ?case
  proof (cases i)
    case 0
    with Cons.prems ps show ?thesis by (simp add: tally_def ac_simps)
  next
    case (Suc j)
    with Cons.prems ps have "tally f xs (qs[j := p]) = tally f xs qs + d"
      by (intro Cons.IH) auto
    with Suc ps show ?thesis by (simp add: tally_def ac_simps)
  qed
qed

lemma tally_replicate_zero:
  "(\<And>x. f x q = 0) \<Longrightarrow> tally f xs (replicate n q) = 0"
proof (induction xs arbitrary: n)
  case Nil
  then show ?case by (simp add: tally_def)
next
  case (Cons x xs)
  then show ?case by (cases n) (auto simp: tally_def)
qed

lemma tally_cong:
  "(\<And>x p. (x, p) \<in> set (zip xs ps) \<Longrightarrow> f x p = g x p) \<Longrightarrow> tally f xs ps = tally g xs ps"
  unfolding tally_def by (rule arg_cong[where f = sum_list]) (auto intro!: map_cong)

lemma filter_update_count:
  "i < length ps \<Longrightarrow>
     length (filter P (ps[i := p])) + (if P (ps ! i) then 1 else 0)
       = length (filter P ps) + (if P p then 1 else 0)"
proof (induction ps arbitrary: i)
  case Nil
  then show ?case by simp
next
  case (Cons q qs)
  then show ?case by (cases i) auto
qed

lemma vcpusPhase_eq:
  "vcpusPhase env i t s =
     s\<lparr>totalCPUCoresUsed := totalCPUCoresUsed s + vcpusAdded env i t,
       usageErrors := usageErrors s @ metricErrors env ''vcpus'' i t,
       measureCalls := measureCalls s @ metricCalls ''vcpus'' i t\<rparr>"
  by (auto simp: vcpusPhase_def vcpusAdded_def metricErrors_def metricCalls_def metricReply_def
        latestValue_def fetchFailure_def measuresError_def Let_def last_conv_nth
      split: option.splits sum.splits)

lemma memoryPhase_eq:
  "memoryPhase env i t s =
     s\<lparr>totalRAMUsedGB := totalRAMUsedGB s + memoryAdded env i t,
       usageErrors := usageErrors s @ metricErrors env ''memory'' i t,
       measureCalls := measureCalls s @ metricCalls ''memory'' i t\<rparr>"
  by (auto simp: memoryPhase_def memoryAdded_def metricErrors_def metricCalls_def metricReply_def
        latestValue_def fetchFailure_def measuresError_def Let_def last_conv_nth
      split: option.splits sum.splits)

lemma nth_enum: "i < length ts \<Longrightarrow> enumerate 0 ts ! i = (i, ts ! i)"
  by (simp add: nth_enumerate_eq)

lemmas pc_classes = holding_def pastVcpus_def pastMemory_def tookCancel_def

subsection \<open>The invariant is kept by every step\<close>

lemma step_cases [consumes 2, case_names ctxDone acquire cancelled proceed vcpus memory release]:
  assumes "step env ts e s = Some s'" and "length (workers s) = length ts"
  obtains
    (ctxDone) c where "e = CtxDone c" "ctxErr s = None" "s' = s\<lparr>ctxErr := Some c\<rparr>"
  | (acquire) i where "e = Acquire i" "i < length ts" "workers s ! i = Blocked"
      "semaphore s < semaphoreCapacity"
      "s' = s\<lparr>semaphore := semaphore s + 1, workers := (workers s)[i := Acquired]\<rparr>"
  | (cancelled) i c where "e = CheckCtx i" "i < length ts" "workers s ! i = Acquired"
      "ctxErr s = Some c"
      "s' = s\<lparr>usageErrors := usageErrors s @ [cancelError (Some c) (ts ! i)],
                workers := (workers s)[i := Returning True]\<rparr>"
  | (proceed) i where "e = CheckCtx i" "i < length ts" "workers s ! i = Acquired"
      "ctxErr s = None" "s' = s\<lparr>workers := (workers s)[i := AtVcpus]\<rparr>"
  | (vcpus) i where "e = Vcpus i" "i < length ts" "workers s ! i = AtVcpus"
      "s' = s\<lparr>totalCPUCoresUsed := totalCPUCoresUsed s + vcpusAdded env i (ts ! i),
                usageErrors := usageErrors s @ metricErrors env ''vcpus'' i (ts ! i),
                measureCalls := measureCalls s @ metricCalls ''vcpus'' i (ts ! i),
                workers := (workers s)[i := AtMemory]\<rparr>"
  | (memory) i where "e = Memory i" "i < length ts" "workers s ! i = AtMemory"
      "s' = s\<lparr>totalRAMUsedGB := totalRAMUsedGB s + memoryAdded env i (ts ! i),
                usageErrors := usageErrors s @ metricErrors env ''memory'' i (ts ! i),
                measureCalls := measureCalls s @ metricCalls ''memory'' i (ts ! i),
                workers := (workers s)[i := Returning False]\<rparr>"
  | (release) i b where "e = Release i" "i < length ts" "workers s ! i = Returning b"
      "s' = s\<lparr>semaphore := semaphore s - 1, workers := (workers s)[i := Exited b]\<rparr>"
proof (cases e)
  case (Acquire i)
  with assms show ?thesis
    by (intro acquire[of i]) (auto simp: setPc_def pcAt_def split: if_splits)
next
  case (CheckCtx i)
  with assms show ?thesis
  proof (cases "ctxErr s")
    case None
    with CheckCtx assms show ?thesis
      by (intro proceed[of i]) (auto simp: setPc_def pcAt_def checkCtx_def split: if_splits)
  next
    case (Some c)
    with CheckCtx assms show ?thesis
      by (intro cancelled[of i c]) (auto simp: setPc_def pcAt_def checkCtx_def split: if_splits)
  qed
next
  case (Vcpus i)
  with assms show ?thesis
    by (intro vcpus[of i]) (auto simp: setPc_def pcAt_def vcpusPhase_eq split: if_splits)
next
  case (Memory i)
  with assms show ?thesis
    by (intro memory[of i]) (auto simp: setPc_def pcAt_def memoryPhase_eq split: if_splits)
next
  case (Release i)
  with assms obtain b where "workers s ! i = Returning b" "i < length ts"
    by (auto simp: pcAt_def split: if_splits option.splits pc.splits)
  with Release assms show ?thesis
    by (intro release[of i b]) (auto simp: setPc_def pcAt_def split: if_splits)
next
  case (CtxDone c)
  with assms show ?thesis
    by (intro ctxDone[of c]) (auto split: if_splits)
qed

lemma step_length:
  assumes "step env ts e s = Some s'" and "length (workers s) = length ts"
  shows "length (workers s') = length ts"
  using assms by (cases rule: step_cases) (use assms in simp_all)

lemma step_cpu:
  assumes "step env ts e s = Some s'" and "length (workers s) = length ts"
    and "totalCPUCoresUsed s = tally (cpuDone env) (enumerate 0 ts) (workers s)"
  shows "totalCPUCoresUsed s' = tally (cpuDone env) (enumerate 0 ts) (workers s')"
  using assms(1,2)
proof (cases rule: step_cases)
  case (vcpus i)
  with assms show ?thesis
    by (simp add: cpuDone_def pc_classes nth_enum
          tally_update_add[where d = "vcpusAdded env i (ts ! i)"])
qed (use assms in \<open>simp_all add: cpuDone_def pc_classes nth_enum tally_update_add[where d = 0]\<close>)

lemma step_ram:
  assumes "step env ts e s = Some s'" and "length (workers s) = length ts"
    and "totalRAMUsedGB s = tally (ramDone env) (enumerate 0 ts) (workers s)"
  shows "totalRAMUsedGB s' = tally (ramDone env) (enumerate 0 ts) (workers s')"
  using assms(1,2)
proof (cases rule: step_cases)
  case (memory i)
  with assms show ?thesis
    by (simp add: ramDone_def pc_classes nth_enum
          tally_update_add[where d = "memoryAdded env i (ts ! i)"])
qed (use assms in \<open>simp_all add: ramDone_def pc_classes nth_enum tally_update_add[where d = 0]\<close>)

lemma step_calls:
  assumes "step env ts e s = Some s'" and "length (workers s) = length ts"
    and "mset (measureCalls s) = tally callsDone (enumerate 0 ts) (workers s)"
  shows "mset (measureCalls s') = tally callsDone (enumerate 0 ts) (workers s')"
  using assms(1,2)
proof (cases rule: step_cases)
  case (vcpus i)
  with assms show ?thesis
    by (simp add: callsDone_def pc_classes nth_enum
          tally_update_add[where d = "mset (metricCalls ''vcpus'' i (ts ! i))"])
next
  case (memory i)
  with assms show ?thesis
    by (simp add: callsDone_def pc_classes nth_enum
          tally_update_add[where d = "mset (metricCalls ''memory'' i (ts ! i))"])
qed (use assms in \<open>simp_all add: callsDone_def pc_classes nth_enum tally_update_add[where d = "{#}"]\<close>)

lemma step_semaphore:
  assumes "step env ts e s = Some s'" and "length (workers s) = length ts"
    and "semaphore s = length (filter holding (workers s))"
  shows "semaphore s' = length (filter holding (workers s'))"
  using assms(1,2)
proof (cases rule: step_cases)
  case (acquire i)
  with assms filter_update_count[of i "workers s" holding Acquired] show ?thesis
    by (simp add: holding_def)
next
  case (cancelled i c)
  with assms filter_update_count[of i "workers s" holding "Returning True"] show ?thesis
    by (simp add: holding_def)
next
  case (proceed i)
  with assms filter_update_count[of i "workers s" holding AtVcpus] show ?thesis
    by (simp add: holding_def)
next
  case (vcpus i)
  with assms filter_update_count[of i "workers s" holding AtMemory] show ?thesis
    by (simp add: holding_def)
next
  case (memory i)
  with assms filter_update_count[of i "workers s" holding "Returning False"] show ?thesis
    by (simp add: holding_def)
next
  case (release i b)
  with assms filter_update_count[of i "workers s" holding "Exited b"] show ?thesis
    by (simp add: holding_def)
qed (use assms in simp)

lemma step_capacity:
  assumes "step env ts e s = Some s'" and "length (workers s) = length ts"
    and "semaphore s \<le> semaphoreCapacity"
  shows "semaphore s' \<le> semaphoreCapacity"
  using assms(1,2) by (cases rule: step_cases) (use assms in simp_all)

lemma list_ex_update:
  "list_ex P (ps[i := p]) \<Longrightarrow> list_ex P ps \<or> P p"
  using set_update_subset_insert[of ps i p] by (auto simp: list_ex_iff)

lemma cancel_ctx_update:
  assumes "list_ex tookCancel ps \<longrightarrow> c \<noteq> None" and "tookCancel p \<longrightarrow> c \<noteq> None"
  shows "list_ex tookCancel (ps[i := p]) \<longrightarrow> c \<noteq> None"
  using assms list_ex_update[of tookCancel ps i p] by blast

lemma step_cancel_ctx:
  assumes "step env ts e s = Some s'" and "length (workers s) = length ts"
    and "list_ex tookCancel (workers s) \<longrightarrow> ctxErr s \<noteq> None"
  shows "list_ex tookCancel (workers s') \<longrightarrow> ctxErr s' \<noteq> None"
  using assms(1,2)
proof (cases rule: step_cases)
  case (release i b)
  have "tookCancel (Exited b) \<longrightarrow> list_ex tookCancel (workers s)"
  proof
    assume "tookCancel (Exited b)"
    then have "tookCancel (workers s ! i)" using release by (simp add: tookCancel_def)
    moreover have "workers s ! i \<in> set (workers s)"
      using release(2) assms(2) by (intro nth_mem) simp
    ultimately show "list_ex tookCancel (workers s)" unfolding list_ex_iff by blast
  qed
  with assms(3) have "tookCancel (Exited b) \<longrightarrow> ctxErr s \<noteq> None" by blast
  from cancel_ctx_update[OF assms(3) this, of i] release show ?thesis by simp
next
  case (acquire i)
  from cancel_ctx_update[OF assms(3), of Acquired i] acquire show ?thesis
    by (simp add: tookCancel_def)
next
  case (proceed i)
  from cancel_ctx_update[OF assms(3), of AtVcpus i] proceed show ?thesis
    by (simp add: tookCancel_def)
next
  case (vcpus i)
  from cancel_ctx_update[OF assms(3), of AtMemory i] vcpus show ?thesis
    by (simp add: tookCancel_def)
next
  case (memory i)
  from cancel_ctx_update[OF assms(3), of "Returning False" i] memory show ?thesis
    by (simp add: tookCancel_def)
next
  case (ctxDone c)
  then show ?thesis by simp
next
  case (cancelled i c)
  then show ?thesis by simp
qed

lemma tally_errs_ctx:
  assumes "\<not> list_ex tookCancel ps"
  shows "tally (errsDone env c) xs ps = tally (errsDone env c') xs ps"
  using assms
  by (intro tally_cong) (auto simp: errsDone_def list_ex_iff dest: set_zip_rightD)

lemma step_errs:
  assumes "step env ts e s = Some s'" and "length (workers s) = length ts"
    and "list_ex tookCancel (workers s) \<longrightarrow> ctxErr s \<noteq> None"
    and "mset (usageErrors s)
           = mset errs + tally (errsDone env (ctxErr s)) (enumerate 0 ts) (workers s)"
  shows "mset (usageErrors s')
           = mset errs + tally (errsDone env (ctxErr s')) (enumerate 0 ts) (workers s')"
  using assms(1,2)
proof (cases rule: step_cases)
  case (ctxDone c)
  with assms tally_errs_ctx[of "workers s" env None "enumerate 0 ts" "Some c"] show ?thesis
    by simp
next
  case (cancelled i c)
  with assms show ?thesis
    by (simp add: errsDone_def pc_classes nth_enum
          tally_update_add[where d = "{#cancelError (Some c) (ts ! i)#}"])
next
  case (vcpus i)
  with assms show ?thesis
    by (simp add: errsDone_def pc_classes nth_enum
          tally_update_add[where d = "mset (metricErrors env ''vcpus'' i (ts ! i))"])
next
  case (memory i)
  with assms show ?thesis
    by (simp add: errsDone_def pc_classes nth_enum
          tally_update_add[where d = "mset (metricErrors env ''memory'' i (ts ! i))"])
next
  case (acquire i)
  with assms show ?thesis
    by (simp add: errsDone_def pc_classes nth_enum tally_update_add[where d = "{#}"])
next
  case (proceed i)
  with assms show ?thesis
    by (simp add: errsDone_def pc_classes nth_enum tally_update_add[where d = "{#}"])
next
  case (release i b)
  with assms show ?thesis
    by (simp add: errsDone_def pc_classes nth_enum tally_update_add[where d = "{#}"])
qed

lemma step_inv:
  assumes "step env ts e s = Some s'" and "fanout_inv env ts errs s"
  shows "fanout_inv env ts errs s'"
proof -
  from assms(2) have len: "length (workers s) = length ts"
    and sem: "semaphore s = length (filter holding (workers s))"
    and cap: "semaphore s \<le> semaphoreCapacity"
    and cpu: "totalCPUCoresUsed s = tally (cpuDone env) (enumerate 0 ts) (workers s)"
    and ram: "totalRAMUsedGB s = tally (ramDone env) (enumerate 0 ts) (workers s)"
    and ers: "mset (usageErrors s)
                = mset errs + tally (errsDone env (ctxErr s)) (enumerate 0 ts) (workers s)"
    and cls: "mset (measureCalls s) = tally callsDone (enumerate 0 ts) (workers s)"
    and ccl: "list_ex tookCancel (workers s) \<longrightarrow> ctxErr s \<noteq> None"
    unfolding fanout_inv_def by blast+
  note st = assms(1)
  show ?thesis
    unfolding fanout_inv_def
    using step_length[OF st len] step_semaphore[OF st len sem] step_capacity[OF st len cap]
      step_cpu[OF st len cpu] step_ram[OF st len ram] step_errs[OF st len ccl ers]
      step_calls[OF st len cls] step_cancel_ctx[OF st len ccl]
    by blast
qed

lemma run_inv:
  "run env ts es s = Some s' \<Longrightarrow> fanout_inv env ts errs s \<Longrightarrow> fanout_inv env ts errs s'"
proof (induction es arbitrary: s)
  case Nil
  then show ?case by simp
next
  case (Cons e es)
  from Cons.prems(1) obtain s1 where s1: "step env ts e s = Some s1" "run env ts es s1 = Some s'"
    by (auto split: option.splits)
  from Cons.IH[OF s1(2) step_inv[OF s1(1) Cons.prems(2)]] show ?case .
qed

lemma dispatch_inv: "fanout_inv env ts errs (dispatch errs c ts)"
  by (simp add: fanout_inv_def dispatch_def tally_replicate_zero cpuDone_def ramDone_def
        errsDone_def callsDone_def pc_classes list_ex_iff)

lemma reachable_inv:
  "run env ts sched (dispatch errs c ts) = Some s \<Longrightarrow> fanout_inv env ts errs s"
  by (rule run_inv[OF _ dispatch_inv])

lemma run_append:
  "run env ts (xs @ ys) s =
     (case run env ts xs s of None \<Rightarrow> None | Some s1 \<Rightarrow> run env ts ys s1)"
  by (induction xs arbitrary: s) (auto split: option.splits)

subsection \<open>Every run ends, and none is stuck\<close>

lemma rank_update:
  "i < length ps \<Longrightarrow>
     sum_list (map pcRank (ps[i := p])) + pcRank (ps ! i) = sum_list (map pcRank ps) + pcRank p"
proof (induction ps arbitrary: i)
  case Nil
  then show ?case by simp
next
  case (Cons q qs)
  then show ?case by (cases i) auto
qed

lemma step_decreases:
  assumes "step env ts e s = Some s'" and "length (workers s) = length ts"
  shows "stepsLeft s' < stepsLeft s"
  using assms
proof (cases rule: step_cases)
  case (ctxDone c)
  then show ?thesis by (simp add: stepsLeft_def)
next
  case (acquire i)
  with assms(2) rank_update[of i "workers s" Acquired] show ?thesis
    by (simp add: stepsLeft_def pcRank_def)
next
  case (cancelled i c)
  with assms(2) rank_update[of i "workers s" "Returning True"] show ?thesis
    by (simp add: stepsLeft_def pcRank_def)
next
  case (proceed i)
  with assms(2) rank_update[of i "workers s" AtVcpus] show ?thesis
    by (simp add: stepsLeft_def pcRank_def)
next
  case (vcpus i)
  with assms(2) rank_update[of i "workers s" AtMemory] show ?thesis
    by (simp add: stepsLeft_def pcRank_def)
next
  case (memory i)
  with assms(2) rank_update[of i "workers s" "Returning False"] show ?thesis
    by (simp add: stepsLeft_def pcRank_def)
next
  case (release i b)
  with assms(2) rank_update[of i "workers s" "Exited b"] show ?thesis
    by (simp add: stepsLeft_def pcRank_def)
qed

lemma run_length:
  "run env ts es s = Some s' \<Longrightarrow> length (workers s) = length ts
     \<Longrightarrow> length es + stepsLeft s' \<le> stepsLeft s"
proof (induction es arbitrary: s)
  case Nil
  then show ?case by simp
next
  case (Cons e es)
  from Cons.prems(1) obtain s1 where s1: "step env ts e s = Some s1" "run env ts es s1 = Some s'"
    by (auto split: option.splits)
  from Cons.IH[OF s1(2) step_length[OF s1(1) Cons.prems(2)]]
    step_decreases[OF s1(1) Cons.prems(2)]
  show ?case by simp
qed

lemma holder_can_step:
  assumes "i < length ts" and "length (workers s) = length ts" and "holding (workers s ! i)"
  shows "\<exists>e s'. \<not> isCtxDone e \<and> step env ts e s = Some s'"
proof (cases "workers s ! i")
  case Acquired
  with assms have "\<not> isCtxDone (CheckCtx i) \<and> step env ts (CheckCtx i) s \<noteq> None"
    by (simp add: pcAt_def isCtxDone_def)
  then show ?thesis by blast
next
  case AtVcpus
  with assms have "\<not> isCtxDone (Vcpus i) \<and> step env ts (Vcpus i) s \<noteq> None"
    by (simp add: pcAt_def isCtxDone_def)
  then show ?thesis by blast
next
  case AtMemory
  with assms have "\<not> isCtxDone (Memory i) \<and> step env ts (Memory i) s \<noteq> None"
    by (simp add: pcAt_def isCtxDone_def)
  then show ?thesis by blast
next
  case (Returning b)
  with assms have "\<not> isCtxDone (Release i) \<and> step env ts (Release i) s \<noteq> None"
    by (simp add: pcAt_def isCtxDone_def)
  then show ?thesis by blast
next
  case Blocked
  with assms show ?thesis by (simp add: holding_def)
next
  case (Exited b)
  with assms show ?thesis by (simp add: holding_def)
qed

lemma progress:
  assumes inv: "fanout_inv env ts errs s" and nw: "\<not> waitReturns s"
  shows "\<exists>e s'. \<not> isCtxDone e \<and> step env ts e s = Some s'"
proof -
  from inv have len: "length (workers s) = length ts"
    and sem: "semaphore s = length (filter holding (workers s))"
    unfolding fanout_inv_def by blast+
  show ?thesis
  proof (cases "\<exists>i < length ts. holding (workers s ! i)")
    case True
    then show ?thesis using holder_can_step[OF _ len] by blast
  next
    case False
    with len have none: "\<forall>p \<in> set (workers s). \<not> holding p"
      by (metis in_set_conv_nth)
    then have "filter holding (workers s) = []" by (simp add: filter_empty_conv)
    with sem have s0: "semaphore s = 0" by simp
    from nw obtain p where p: "p \<in> set (workers s)" "\<not> isExited p"
      by (auto simp: waitReturns_def list_all_iff)
    with none have "p = Blocked" by (cases p) (auto simp: holding_def isExited_def)
    with p(1) len obtain i where "i < length ts" "workers s ! i = Blocked"
      by (metis in_set_conv_nth)
    with s0 len have "\<not> isCtxDone (Acquire i) \<and> step env ts (Acquire i) s \<noteq> None"
      by (simp add: pcAt_def semaphoreCapacity_def isCtxDone_def)
    then show ?thesis by blast
  qed
qed

lemma can_finish:
  "fanout_inv env ts errs s \<Longrightarrow>
     \<exists>es s'. list_all (\<lambda>e. \<not> isCtxDone e) es \<and> run env ts es s = Some s' \<and> waitReturns s'"
proof (induction "stepsLeft s" arbitrary: s rule: less_induct)
  case less
  show ?case
  proof (cases "waitReturns s")
    case True
    then have "list_all (\<lambda>e. \<not> isCtxDone e) [] \<and> run env ts [] s = Some s \<and> waitReturns s"
      by simp
    then show ?thesis by blast
  next
    case False
    from progress[OF less.prems False] obtain e s1
      where q: "\<not> isCtxDone e" and st: "step env ts e s = Some s1"
      by blast
    from less.prems have len: "length (workers s) = length ts"
      unfolding fanout_inv_def by blast
    from less.hyps[OF step_decreases[OF st len] step_inv[OF st less.prems]]
    obtain es s' where "list_all (\<lambda>e. \<not> isCtxDone e) es" "run env ts es s1 = Some s'"
      "waitReturns s'" by blast
    with st q have "list_all (\<lambda>e. \<not> isCtxDone e) (e # es) \<and> run env ts (e # es) s = Some s'
        \<and> waitReturns s'" by simp
    then show ?thesis by blast
  qed
qed

lemma stepsLeft_dispatch: "stepsLeft (dispatch errs c ts) \<le> 5 * length ts + 1"
  by (simp add: stepsLeft_def dispatch_def pcRank_def sum_list_replicate)

subsection \<open>The steps a run has taken\<close>

lemma run_snoc:
  "run env ts (es @ [e]) s = Some s' \<longleftrightarrow>
     (\<exists>s1. run env ts es s = Some s1 \<and> step env ts e s1 = Some s')"
  by (auto simp: run_append split: option.splits)

lemma run_length_inv:
  "run env ts es s = Some s' \<Longrightarrow> length (workers s) = length ts
    \<Longrightarrow> length (workers s') = length ts"
proof (induction es arbitrary: s)
  case Nil
  then show ?case by simp
next
  case (Cons e es)
  then show ?case by (auto split: option.splits dest: step_length)
qed

lemma history:
  assumes "run env ts sched (dispatch errs c ts) = Some s" and "i < length ts"
  shows "count_list sched (Acquire i) = (if workers s ! i = Blocked then 0 else 1)
       \<and> count_list sched (Vcpus i) = (if pastVcpus (workers s ! i) then 1 else 0)
       \<and> count_list sched (Memory i) = (if pastMemory (workers s ! i) then 1 else 0)
       \<and> count_list sched (Release i) = (if isExited (workers s ! i) then 1 else 0)"
  using assms(1)
proof (induction sched arbitrary: s rule: rev_induct)
  case Nil
  then have "s = dispatch errs c ts" by simp
  with assms(2) show ?case by (simp add: dispatch_def pc_classes isExited_def)
next
  case (snoc e es)
  from snoc.prems obtain s1 where s1: "run env ts es (dispatch errs c ts) = Some s1"
    and st: "step env ts e s1 = Some s"
    unfolding run_snoc by blast
  have len: "length (workers s1) = length ts"
    using run_length_inv[OF s1] by (simp add: dispatch_def)
  note IH = snoc.IH[OF s1]
  from st len show ?case
  proof (cases rule: step_cases)
    case (ctxDone c)
    with IH show ?thesis by simp
  next
    case (acquire j)
    with IH len assms(2) show ?thesis
      by (cases "j = i") (simp_all add: pc_classes isExited_def)
  next
    case (cancelled j c)
    with IH len assms(2) show ?thesis
      by (cases "j = i") (simp_all add: pc_classes isExited_def)
  next
    case (proceed j)
    with IH len assms(2) show ?thesis
      by (cases "j = i") (simp_all add: pc_classes isExited_def)
  next
    case (vcpus j)
    with IH len assms(2) show ?thesis
      by (cases "j = i") (simp_all add: pc_classes isExited_def)
  next
    case (memory j)
    with IH len assms(2) show ?thesis
      by (cases "j = i") (simp_all add: pc_classes isExited_def)
  next
    case (release j b)
    with IH len assms(2) show ?thesis
      by (cases "j = i") (simp_all add: pc_classes isExited_def)
  qed
qed

subsection \<open>Runs with and without cancellation\<close>

lemma tally_pointwise:
  assumes "length ps = length xs" and "\<And>i. i < length xs \<Longrightarrow> f (xs ! i) (ps ! i) = g (xs ! i)"
  shows "tally f xs ps = sum_list (map g xs)"
proof -
  have "map2 f xs ps = map g xs"
    using assms by (intro nth_equalityI) simp_all
  then show ?thesis by (simp add: tally_def)
qed

lemma step_ctx_stays:
  assumes "step env ts e s = Some s'" and "length (workers s) = length ts"
    and "ctxErr s = Some c"
  shows "ctxErr s' = Some c"
  using assms(1,2) by (cases rule: step_cases) (use assms(3) in simp_all)

lemma step_ctx_same:
  assumes "step env ts e s = Some s'" and "length (workers s) = length ts"
    and "\<not> isCtxDone e"
  shows "ctxErr s' = ctxErr s"
  using assms(1,2) by (cases rule: step_cases) (use assms(3) in \<open>simp_all add: isCtxDone_def\<close>)

lemma run_ctx_same:
  "run env ts es s = Some s' \<Longrightarrow> length (workers s) = length ts
     \<Longrightarrow> list_all (\<lambda>e. \<not> isCtxDone e) es \<Longrightarrow> ctxErr s' = ctxErr s"
proof (induction es arbitrary: s)
  case Nil
  then show ?case by simp
next
  case (Cons e es)
  from Cons.prems(1) obtain s1 where s1: "step env ts e s = Some s1" "run env ts es s1 = Some s'"
    by (auto split: option.splits)
  from Cons.prems have "ctxErr s1 = ctxErr s" by (intro step_ctx_same[OF s1(1)]) simp_all
  moreover from Cons.prems have "ctxErr s' = ctxErr s1"
    by (intro Cons.IH[OF s1(2) step_length[OF s1(1)]]) simp_all
  ultimately show ?case by simp
qed

lemma list_all_update: "list_all P ps \<Longrightarrow> P p \<Longrightarrow> list_all P (ps[i := p])"
  using set_update_subset_insert[of ps i p] by (auto simp: list_all_iff)

lemma step_cancel_only:
  assumes "step env ts e s = Some s'" and "length (workers s) = length ts"
    and "ctxErr s = Some c" and "list_all cancelOnly (workers s)"
  shows "list_all cancelOnly (workers s')"
proof -
  have at: "\<And>i. i < length ts \<Longrightarrow> cancelOnly (workers s ! i)"
    using assms(2,4) by (simp add: list_all_length)
  from assms(1,2) show ?thesis
  proof (cases rule: step_cases)
    case (vcpus i)
    with at[of i] show ?thesis by (simp add: cancelOnly_def tookCancel_def)
  next
    case (memory i)
    with at[of i] show ?thesis by (simp add: cancelOnly_def tookCancel_def)
  next
    case (release i b)
    with at[of i] have "cancelOnly (Exited b)" by (simp add: cancelOnly_def tookCancel_def)
    with release assms(4) show ?thesis by (simp add: list_all_update)
  qed (use assms in \<open>simp_all add: list_all_update cancelOnly_def tookCancel_def\<close>)
qed

lemma run_cancel_only:
  "run env ts es s = Some s' \<Longrightarrow> length (workers s) = length ts \<Longrightarrow> ctxErr s = Some c
     \<Longrightarrow> list_all cancelOnly (workers s) \<Longrightarrow> list_all cancelOnly (workers s') \<and> ctxErr s' = Some c"
proof (induction es arbitrary: s)
  case Nil
  then show ?case by simp
next
  case (Cons e es)
  from Cons.prems(1) obtain s1 where s1: "step env ts e s = Some s1" "run env ts es s1 = Some s'"
    by (auto split: option.splits)
  from Cons.IH[OF s1(2) step_length[OF s1(1) Cons.prems(2)]
      step_ctx_stays[OF s1(1) Cons.prems(2,3)]
      step_cancel_only[OF s1(1) Cons.prems(2,3,4)]]
  show ?case .
qed

lemma exited_cancel_only:
  "waitReturns s \<Longrightarrow> list_all cancelOnly (workers s) \<Longrightarrow> p \<in> set (workers s) \<Longrightarrow> p = Exited True"
  by (cases p) (auto simp: waitReturns_def list_all_iff isExited_def cancelOnly_def tookCancel_def)

lemma exited_not_cancel:
  "waitReturns s \<Longrightarrow> \<not> list_ex tookCancel (workers s) \<Longrightarrow> p \<in> set (workers s) \<Longrightarrow> p = Exited False"
  by (cases p) (auto simp: waitReturns_def list_all_iff list_ex_iff isExited_def tookCancel_def)

lemma sum_list_zeros: "sum_list (map (\<lambda>z. 0) zs) = (0 :: 'a :: comm_monoid_add)"
  by (induction zs) auto

lemma tally_zero:
  fixes f :: "'t \<Rightarrow> pc \<Rightarrow> 'a :: comm_monoid_add"
  assumes "\<And>x p. (x, p) \<in> set (zip xs ps) \<Longrightarrow> f x p = 0"
  shows "tally f xs ps = 0"
proof -
  have "tally (\<lambda>x p. 0 :: 'a) xs ps = 0"
    by (simp add: tally_def case_prod_unfold sum_list_zeros)
  with tally_cong[of xs ps f "\<lambda>x p. 0", OF assms] show ?thesis by simp
qed

lemma run_event_range:
  "run env ts es s = Some s' \<Longrightarrow> e \<in> set es \<Longrightarrow> e = Vcpus i \<or> e = Memory i \<Longrightarrow> i < length ts"
proof (induction es arbitrary: s)
  case Nil
  then show ?case by simp
next
  case (Cons a es)
  from Cons.prems(1) obtain s1 where s1: "step env ts a s = Some s1" "run env ts es s1 = Some s'"
    by (auto split: option.splits)
  show ?case
  proof (cases "e = a")
    case True
    with s1(1) Cons.prems(3) show ?thesis by (auto split: if_splits)
  next
    case False
    with Cons.prems(2) have "e \<in> set es" by simp
    from Cons.IH[OF s1(2) this Cons.prems(3)] show ?thesis .
  qed
qed

lemma tally_member:
  fixes f :: "'t \<Rightarrow> pc \<Rightarrow> 'b multiset"
  shows "y \<in># tally f xs ps \<Longrightarrow> \<exists>j. j < length xs \<and> j < length ps \<and> y \<in># f (xs ! j) (ps ! j)"
proof (induction xs arbitrary: ps)
  case Nil
  then show ?case by (simp add: tally_def)
next
  case (Cons x xs)
  show ?case
  proof (cases ps)
    case Nil
    with Cons.prems show ?thesis by (simp add: tally_def)
  next
    case (Cons p ps')
    with Cons.prems have "y \<in># f x p \<or> y \<in># tally f xs ps'" by (simp add: tally_def)
    then show ?thesis
    proof
      assume "y \<in># f x p"
      with Cons have "0 < length (x # xs) \<and> 0 < length ps \<and> y \<in># f ((x # xs) ! 0) (ps ! 0)"
        by simp
      then show ?thesis by blast
    next
      assume "y \<in># tally f xs ps'"
      from Cons.IH[OF this] obtain j where "j < length xs" "j < length ps'"
        "y \<in># f (xs ! j) (ps' ! j)" by blast
      with Cons have "Suc j < length (x # xs) \<and> Suc j < length ps
          \<and> y \<in># f ((x # xs) ! Suc j) (ps ! Suc j)" by simp
      then show ?thesis by blast
    qed
  qed
qed

lemma cancelled_made_no_call:
  assumes run: "run env ts sched (dispatch errs c ts) = Some s"
    and i: "i < length ts" and tc: "tookCancel (workers s ! i)"
  shows "(i, m) \<notin> set (measureCalls s)"
proof
  assume "(i, m) \<in> set (measureCalls s)"
  then have "(i, m) \<in># mset (measureCalls s)" by simp
  with reachable_inv[OF run] have "(i, m) \<in># tally callsDone (enumerate 0 ts) (workers s)"
    unfolding fanout_inv_def by simp
  from tally_member[OF this] obtain j where j: "j < length ts"
    and mem: "(i, m) \<in># callsDone (enumerate 0 ts ! j) (workers s ! j)"
    by auto
  from mem j have "j = i \<and> (pastVcpus (workers s ! j) \<or> pastMemory (workers s ! j))"
    by (auto simp: callsDone_def metricCalls_def nth_enum split: if_splits option.splits)
  with tc show False by (auto simp: pc_classes)
qed

lemma all_ran:
  assumes run: "run env ts sched (dispatch errs None ts) = Some s"
    and quiet: "list_all (\<lambda>e. \<not> isCtxDone e) sched" and wait: "waitReturns s"
  shows "p \<in> set (workers s) \<Longrightarrow> p = Exited False"
proof -
  have "ctxErr s = None"
    using run_ctx_same[OF run _ quiet] by (simp add: dispatch_def)
  with reachable_inv[OF run] have "\<not> list_ex tookCancel (workers s)"
    unfolding fanout_inv_def by blast
  from exited_not_cancel[OF wait this] show "p \<in> set (workers s) \<Longrightarrow> p = Exited False" .
qed

lemma all_ran_totals:
  assumes run: "run env ts sched (dispatch errs None ts) = Some s"
    and quiet: "list_all (\<lambda>e. \<not> isCtxDone e) sched" and wait: "waitReturns s"
  shows "totalCPUCoresUsed s = (\<Sum>x\<leftarrow>enumerate 0 ts. vcpusAdded env (fst x) (snd x))"
    and "totalRAMUsedGB s = (\<Sum>x\<leftarrow>enumerate 0 ts. memoryAdded env (fst x) (snd x))"
    and "mset (usageErrors s) = mset errs
           + (\<Sum>x\<leftarrow>enumerate 0 ts. mset (metricErrors env ''vcpus'' (fst x) (snd x))
                                   + mset (metricErrors env ''memory'' (fst x) (snd x)))"
proof -
  note inv = reachable_inv[OF run]
  from inv have len: "length (workers s) = length (enumerate 0 ts)"
    unfolding fanout_inv_def by simp
  have ex: "\<And>i. i < length (enumerate 0 ts) \<Longrightarrow> workers s ! i = Exited False"
    using all_ran[OF run quiet wait] len by (metis nth_mem)
  have "tally (cpuDone env) (enumerate 0 ts) (workers s)
          = (\<Sum>x\<leftarrow>enumerate 0 ts. vcpusAdded env (fst x) (snd x))"
    by (rule tally_pointwise[OF len]) (simp add: ex cpuDone_def pastVcpus_def)
  with inv show "totalCPUCoresUsed s = (\<Sum>x\<leftarrow>enumerate 0 ts. vcpusAdded env (fst x) (snd x))"
    unfolding fanout_inv_def by simp
  have "tally (ramDone env) (enumerate 0 ts) (workers s)
          = (\<Sum>x\<leftarrow>enumerate 0 ts. memoryAdded env (fst x) (snd x))"
    by (rule tally_pointwise[OF len]) (simp add: ex ramDone_def pastMemory_def)
  with inv show "totalRAMUsedGB s = (\<Sum>x\<leftarrow>enumerate 0 ts. memoryAdded env (fst x) (snd x))"
    unfolding fanout_inv_def by simp
  have "tally (errsDone env (ctxErr s)) (enumerate 0 ts) (workers s)
          = (\<Sum>x\<leftarrow>enumerate 0 ts. mset (metricErrors env ''vcpus'' (fst x) (snd x))
                                   + mset (metricErrors env ''memory'' (fst x) (snd x)))"
    by (rule tally_pointwise[OF len]) (simp add: ex errsDone_def pc_classes)
  with inv show "mset (usageErrors s) = mset errs
           + (\<Sum>x\<leftarrow>enumerate 0 ts. mset (metricErrors env ''vcpus'' (fst x) (snd x))
                                   + mset (metricErrors env ''memory'' (fst x) (snd x)))"
    unfolding fanout_inv_def by simp
qed

subsection \<open>The answer of the fan-out\<close>

lemma aggregate_Some:
  "aggregate env errs ts sched = Some (resp, calls) \<longleftrightarrow>
     (\<exists>s. run env ts sched (dispatch errs (env_ctxErr_dispatch env) ts) = Some s
          \<and> waitReturns s \<and> resp = respond env (length ts) s \<and> calls = measureCalls s)"
  by (auto simp: aggregate_def split: option.splits)

lemma aggregate_returns:
  "\<exists>sched r. list_all (\<lambda>e. \<not> isCtxDone e) sched \<and> aggregate env errs ts sched = Some r"
proof -
  from can_finish[OF dispatch_inv[of env ts errs "env_ctxErr_dispatch env"]]
  obtain es s' where "list_all (\<lambda>e. \<not> isCtxDone e) es"
    "run env ts es (dispatch errs (env_ctxErr_dispatch env) ts) = Some s'" "waitReturns s'"
    by blast
  then have "list_all (\<lambda>e. \<not> isCtxDone e) es
      \<and> aggregate env errs ts es = Some (respond env (length ts) s', measureCalls s')"
    by (simp add: aggregate_def)
  then show ?thesis by blast
qed

text \<open>Every run can be continued until \<^verbatim>\<open>wg.Wait()\<close> returns, and no run is longer than five
  steps per worker and one cancellation.\<close>

lemma run_completes:
  assumes "run env ts sched (dispatch errs c ts) = Some s"
  shows "\<exists>rest s'. run env ts (sched @ rest) (dispatch errs c ts) = Some s' \<and> waitReturns s'"
    and "length sched \<le> 5 * length ts + 1"
proof -
  from can_finish[OF reachable_inv[OF assms]] obtain rest s'
    where "run env ts rest s = Some s'" "waitReturns s'" by blast
  with assms have "run env ts (sched @ rest) (dispatch errs c ts) = Some s' \<and> waitReturns s'"
    by (simp add: run_append)
  then show "\<exists>rest s'. run env ts (sched @ rest) (dispatch errs c ts) = Some s' \<and> waitReturns s'"
    by blast
  have "length (workers (dispatch errs c ts)) = length ts" by (simp add: dispatch_def)
  from run_length[OF assms this] stepsLeft_dispatch[of errs c ts]
  show "length sched \<le> 5 * length ts + 1" by simp
qed

subsection \<open>Counting errors\<close>

lemma sum_singletons:
  "(\<Sum>x\<leftarrow>enumerate n ts. {#h (snd x)#}) = mset (map h ts)"
  by (induction ts arbitrary: n) auto

lemma latest_no_failure: "latestValue r = Some v \<Longrightarrow> fetchFailure r = None"
  by (auto simp: latestValue_def fetchFailure_def split: option.splits sum.splits)

lemma size_sum_list_mset:
  fixes f :: "'a \<Rightarrow> 'b multiset"
  shows "size (\<Sum>x\<leftarrow>xs. f x) = (\<Sum>x\<leftarrow>xs. size (f x))"
  by (induction xs) auto

lemma count_filter_sum: "(\<Sum>x\<leftarrow>xs. if P x then 1 else 0 :: nat) = length (filter P xs)"
  by (induction xs) auto

lemma metricErrors_size:
  "length (metricErrors env key i t) = (if metricFails env key (i, t) then 1 else 0)"
  by (auto simp: metricErrors_def metricFails_def)

lemma failed_adds_nothing: "metricFails env ''vcpus'' x \<Longrightarrow> vcpusAdded env (fst x) (snd x) = 0"
  by (auto simp: metricFails_def vcpusAdded_def fetchFailure_def latestValue_def
        split: option.splits sum.splits)

section \<open>Evaluation on the concrete inputs\<close>

lemmas fanout_defs = dispatch_def pcAt_def setPc_def checkCtx_def vcpusPhase_def
  memoryPhase_def semaphoreCapacity_def

lemmas demo_defs = demoEnv_def demoSeries_def demoTarget_def demoInstance_def vmA_def vmB_def
  repliesAB_def vmHalf_def repliesHalf_def vmCpuOnly_def replies10_def

lemma run_interleaved:
  "run (demoEnv repliesAB) [vmA, vmB] interleaved (dispatch [] None [vmA, vmB]) = Some finalAB"
  by (simp add: interleaved_def finalAB_def fanout_defs demo_defs)

lemma run_half:
  "run (demoEnv repliesHalf) [vmHalf] (oneByOne 1) (dispatch [] None [vmHalf]) = Some finalHalf"
  by (simp add: oneByOne_def finalHalf_def fanout_defs demo_defs measuresError_def)

lemma aggregate_AB:
  "aggregate (demoEnv repliesAB) [] [vmA, vmB] interleaved
     = Some (JSON 200 \<lparr>tu_Timestamp = ''2024-01-01T00:10:00Z'', tu_TotalVMs = 2,
                       tu_CPUCoresUsed = 3.5, tu_RAMUsedGB = 2, tu_Errors = []\<rparr>,
             [(1, ''b-vcpus''), (0, ''a-vcpus''), (0, ''a-memory'')])"
proof -
  have "env_ctxErr_dispatch (demoEnv repliesAB) = None" by (simp add: demoEnv_def)
  with run_interleaved show ?thesis
    by (simp add: aggregate_def waitReturns_def isExited_def respond_def finalAB_def demoEnv_def)
qed

lemma aggregate_expired:
  "aggregate expiredEnv [] (replicate 5 vmA) (cancelledOneByOne 5)
     = Some (JSON 206 \<lparr>tu_Timestamp = ''2024-01-01T00:10:00Z'', tu_TotalVMs = 5,
                       tu_CPUCoresUsed = 0, tu_RAMUsedGB = 0,
                       tu_Errors = replicate 5 (cancelError (Some ''context deadline exceeded'') vmA)\<rparr>,
             [])"
  by code_simp

lemma aggregate_ten:
  "aggregate (demoEnv replies10) [] (replicate 10 vmCpuOnly) (oneByOne 10)
     = Some (JSON 206 \<lparr>tu_Timestamp = ''2024-01-01T00:10:00Z'', tu_TotalVMs = 10,
                       tu_CPUCoresUsed = 42, tu_RAMUsedGB = 0,
                       tu_Errors = replicate 3 (measuresError ''vcpus'' vmCpuOnly ''timeout'')\<rparr>,
             map (\<lambda>i. (i, ''series'')) [0..<10])"
  by code_simp

lemma ten_hyps:
  "env_ctxErr_dispatch (demoEnv replies10) = None"
  "list_all (\<lambda>e. \<not> isCtxDone e) (oneByOne 10)"
  "list_all (\<lambda>x. \<not> metricFails (demoEnv replies10) ''memory'' x) (enumerate 0 (replicate 10 vmCpuOnly))"
  "length (filter (metricFails (demoEnv replies10) ''vcpus'') (enumerate 0 (replicate 10 vmCpuOnly))) = 3"
  "length (filter (\<lambda>x. \<not> metricFails (demoEnv replies10) ''vcpus'' x) (enumerate 0 (replicate 10 vmCpuOnly))) = 7"
  by code_simp+

section \<open>Targets with the same effect\<close>

lemma sameEffects_sym: "sameEffects env ts ts' \<Longrightarrow> sameEffects env ts' ts"
  by (auto simp: sameEffects_def)

lemma step_sim:
  assumes st: "step env ts e s = Some s1" and len: "length (workers s) = length ts"
    and same: "sameEffects env ts ts'"
  shows "\<exists>cs'. step env ts' e (s\<lparr>measureCalls := cs\<rparr>) = Some (s1\<lparr>measureCalls := cs'\<rparr>)"
proof -
  from same have l': "length ts' = length ts" by (simp add: sameEffects_def)
  have eff: "vcpusAdded env i (ts' ! i) = vcpusAdded env i (ts ! i)"
    "memoryAdded env i (ts' ! i) = memoryAdded env i (ts ! i)"
    "metricErrors env ''vcpus'' i (ts' ! i) = metricErrors env ''vcpus'' i (ts ! i)"
    "metricErrors env ''memory'' i (ts' ! i) = metricErrors env ''memory'' i (ts ! i)"
    "cancelError c (ts' ! i) = cancelError c (ts ! i)" if "i < length ts" for i c
    using same that by (simp_all add: sameEffects_def)
  from st len show ?thesis
  proof (cases rule: step_cases)
    case (ctxDone c)
    then show ?thesis by (intro exI[of _ cs]) simp
  next
    case (acquire i)
    with len l' show ?thesis by (intro exI[of _ cs]) (simp add: pcAt_def setPc_def)
  next
    case (cancelled i c)
    with len l' eff(5)[of i] show ?thesis
      by (intro exI[of _ cs]) (simp add: pcAt_def setPc_def checkCtx_def)
  next
    case (proceed i)
    with len l' show ?thesis
      by (intro exI[of _ cs]) (simp add: pcAt_def setPc_def checkCtx_def)
  next
    case (vcpus i)
    with len l' eff(1,3)[of i] show ?thesis
      by (intro exI[of _ "cs @ metricCalls ''vcpus'' i (ts' ! i)"])
         (simp add: pcAt_def setPc_def vcpusPhase_eq)
  next
    case (memory i)
    with len l' eff(2,4)[of i] show ?thesis
      by (intro exI[of _ "cs @ metricCalls ''memory'' i (ts' ! i)"])
         (simp add: pcAt_def setPc_def memoryPhase_eq)
  next
    case (release i b)
    with len l' show ?thesis by (intro exI[of _ cs]) (simp add: pcAt_def setPc_def)
  qed
qed

lemma run_sim:
  "run env ts es s = Some s1 \<Longrightarrow> length (workers s) = length ts \<Longrightarrow> sameEffects env ts ts'
     \<Longrightarrow> \<exists>cs'. run env ts' es (s\<lparr>measureCalls := cs\<rparr>) = Some (s1\<lparr>measureCalls := cs'\<rparr>)"
proof (induction es arbitrary: s cs)
  case Nil
  then show ?case by auto
next
  case (Cons e es)
  from Cons.prems(1) obtain s2 where s2: "step env ts e s = Some s2" "run env ts es s2 = Some s1"
    by (auto split: option.splits)
  from step_sim[OF s2(1) Cons.prems(2,3)] obtain cs2
    where a: "step env ts' e (s\<lparr>measureCalls := cs\<rparr>) = Some (s2\<lparr>measureCalls := cs2\<rparr>)"
    by blast
  from Cons.IH[OF s2(2) step_length[OF s2(1) Cons.prems(2)] Cons.prems(3), of cs2]
  obtain cs' where "run env ts' es (s2\<lparr>measureCalls := cs2\<rparr>) = Some (s1\<lparr>measureCalls := cs'\<rparr>)"
    by blast
  with a show ?case by auto
qed

lemma aggregate_sim_le:
  assumes same: "sameEffects env ts ts'" and a: "aggregate env errs ts sched = Some (resp, calls)"
  shows "\<exists>calls'. aggregate env errs ts' sched = Some (resp, calls')"
proof -
  from a obtain s where run: "run env ts sched (dispatch errs (env_ctxErr_dispatch env) ts) = Some s"
    and wait: "waitReturns s" and resp: "resp = respond env (length ts) s"
    unfolding aggregate_Some by blast
  from same have l': "length ts' = length ts" by (simp add: sameEffects_def)
  have d: "(dispatch errs (env_ctxErr_dispatch env) ts)\<lparr>measureCalls := []\<rparr>
      = dispatch errs (env_ctxErr_dispatch env) ts'"
    by (simp add: dispatch_def l')
  from run_sim[OF run _ same, of "[]"] obtain cs'
    where "run env ts' sched (dispatch errs (env_ctxErr_dispatch env) ts')
             = Some (s\<lparr>measureCalls := cs'\<rparr>)"
    unfolding d by (auto simp: dispatch_def)
  with wait resp l' show ?thesis
    by (auto simp: aggregate_def waitReturns_def respond_def)
qed

lemma aggregate_sim:
  assumes same: "sameEffects env ts ts'"
  shows "map_option fst (aggregate env errs ts' sched) = map_option fst (aggregate env errs ts sched)"
proof (cases "aggregate env errs ts sched")
  case None
  show ?thesis
  proof (cases "aggregate env errs ts' sched")
    case None
    with \<open>aggregate env errs ts sched = None\<close> show ?thesis by simp
  next
    case (Some r)
    then obtain resp calls where "aggregate env errs ts' sched = Some (resp, calls)"
      by (cases r) auto
    from aggregate_sim_le[OF sameEffects_sym[OF same] this] None show ?thesis by auto
  qed
next
  case (Some r)
  then obtain resp calls where r: "aggregate env errs ts sched = Some (resp, calls)"
    by (cases r) auto
  from aggregate_sim_le[OF same r] r show ?thesis by auto
qed

lemma dropMetric_fields:
  "t_DomainName (dropMetric key t) = t_DomainName t"
  "gi_ID (t_Instance (dropMetric key t)) = gi_ID (t_Instance t)"
  "gi_ProjectID (t_Instance (dropMetric key t)) = gi_ProjectID (t_Instance t)"
  "gi_Metrics (t_Instance (dropMetric key t)) k = (if k = key then None else gi_Metrics (t_Instance t) k)"
  by (simp_all add: dropMetric_def)

lemma dropMetric_reply:
  "metricReply env k i (dropMetric key t) = (if k = key then None else metricReply env k i t)"
  by (simp add: metricReply_def dropMetric_fields)

lemma dropMetric_errors:
  "measuresError k (dropMetric key t) err = measuresError k t err"
  "cancelError c (dropMetric key t) = cancelError c t"
  by (simp_all add: measuresError_def cancelError_def dropMetric_fields)

lemma dropMetric_effects:
  assumes "metricReply env key i t = Some (Inr [])"
  shows "vcpusAdded env i (dropMetric key t) = vcpusAdded env i t"
    and "memoryAdded env i (dropMetric key t) = memoryAdded env i t"
    and "metricErrors env k i (dropMetric key t) = metricErrors env k i t"
  using assms
  by (auto simp: vcpusAdded_def memoryAdded_def metricErrors_def dropMetric_reply
        dropMetric_errors latestValue_def fetchFailure_def split: option.splits sum.splits)

lemma dropMetric_same:
  assumes i: "i < length ts"
    and m: "gi_Metrics (t_Instance (ts ! i)) key = Some m"
    and r: "env_GetMetricMeasures env i m = Inr []"
  shows "sameEffects env ts (ts[i := dropMetric key (ts ! i)])"
proof -
  from m r have rep: "metricReply env key i (ts ! i) = Some (Inr [])"
    by (simp add: metricReply_def)
  note eff = dropMetric_effects[OF rep]
  have "vcpusAdded env j (ts[i := dropMetric key (ts ! i)] ! j) = vcpusAdded env j (ts ! j)
      \<and> memoryAdded env j (ts[i := dropMetric key (ts ! i)] ! j) = memoryAdded env j (ts ! j)
      \<and> metricErrors env ''vcpus'' j (ts[i := dropMetric key (ts ! i)] ! j)
          = metricErrors env ''vcpus'' j (ts ! j)
      \<and> metricErrors env ''memory'' j (ts[i := dropMetric key (ts ! i)] ! j)
          = metricErrors env ''memory'' j (ts ! j)
      \<and> (\<forall>c. cancelError c (ts[i := dropMetric key (ts ! i)] ! j) = cancelError c (ts ! j))"
    if "j < length ts" for j
  proof (cases "j = i")
    case True
    with i eff show ?thesis by (simp add: dropMetric_errors)
  next
    case False
    then show ?thesis by simp
  qed
  then show ?thesis by (simp add: sameEffects_def)
qed

section \<open>Properties of the handler\<close>

lemma step_no_targets:
  "step env [] e s = Some s' \<Longrightarrow> \<exists>c. s' = s\<lparr>ctxErr := c\<rparr>"
  by (cases e) (auto split: if_splits option.splits pc.splits)

lemma run_no_targets:
  "run env [] es s = Some s' \<Longrightarrow> \<exists>c. s' = s\<lparr>ctxErr := c\<rparr>"
proof (induction es arbitrary: s)
  case Nil
  then have "s' = s\<lparr>ctxErr := ctxErr s\<rparr>" by simp
  then show ?case by blast
next
  case (Cons e es)
  from Cons.prems obtain s1 where s1: "step env [] e s = Some s1" "run env [] es s1 = Some s'"
    by (auto split: option.splits)
  from step_no_targets[OF s1(1)] obtain c1 where "s1 = s\<lparr>ctxErr := c1\<rparr>" by blast
  moreover from Cons.IH[OF s1(2)] obtain c where "s' = s1\<lparr>ctxErr := c\<rparr>" by blast
  ultimately have "s' = s\<lparr>ctxErr := c\<rparr>" by simp
  then show ?case by blast
qed

lemma aggregate_no_targets:
  "aggregate env errs [] sched = Some (resp, calls) \<Longrightarrow>
     calls = [] \<and> resp = JSON (if errs = [] then 200 else 206)
       \<lparr>tu_Timestamp = env_now env, tu_TotalVMs = 0, tu_CPUCoresUsed = 0, tu_RAMUsedGB = 0,
        tu_Errors = errs\<rparr>"
proof -
  assume "aggregate env errs [] sched = Some (resp, calls)"
  then obtain s where run: "run env [] sched (dispatch errs (env_ctxErr_dispatch env) []) = Some s"
    and resp: "resp = respond env (length ([] :: instanceWithDomain list)) s"
    and calls: "calls = measureCalls s"
    unfolding aggregate_Some by blast
  from run_no_targets[OF run] obtain c
    where "s = (dispatch errs (env_ctxErr_dispatch env) [])\<lparr>ctxErr := c\<rparr>" by blast
  with resp calls show ?thesis by (simp add: respond_def dispatch_def)
qed

lemma aggregate_no_targets_now:
  "aggregate env errs [] [] = Some (JSON (if errs = [] then 200 else 206)
       \<lparr>tu_Timestamp = env_now env, tu_TotalVMs = 0, tu_CPUCoresUsed = 0, tu_RAMUsedGB = 0,
        tu_Errors = errs\<rparr>, [])"
  by (simp add: aggregate_def waitReturns_def dispatch_def respond_def)

lemma dom_fold_projects:
  "dom (fold (\<lambda>p m. m(kp_ID p \<mapsto> d)) ps m) = dom m \<union> kp_ID ` set ps"
  by (induction ps arbitrary: m) auto

lemma resolve_grows:
  "resolveDomains env tok k ds (m, errs) = (m', errs') \<Longrightarrow>
     dom m \<subseteq> dom m' \<and> length errs \<le> length errs'"
proof (induction ds arbitrary: k m errs)
  case Nil
  then show ?case by simp
next
  case (Cons d ds)
  show ?case
  proof (cases "env_ctxErr_resolving env k")
    case (Some e)
    with Cons.prems show ?thesis by auto
  next
    case None
    show ?thesis
    proof (cases "env_ListProjectsForDomainName env tok d")
      case (Inl err)
      with None Cons.prems Cons.IH[of "Suc k" m "errs @ [domainError d
           (''failed to list projects for domain: '' @ err)]"]
      show ?thesis by auto
    next
      case (Inr ps)
      show ?thesis
      proof (cases "ps = []")
        case True
        with None Inr Cons.prems
          Cons.IH[of "Suc k" m "errs @ [domainError d ''no projects found for domain'']"]
        show ?thesis by auto
      next
        case False
        with None Inr Cons.prems
          Cons.IH[of "Suc k" "fold (\<lambda>p m. m(kp_ID p \<mapsto> d)) ps m" errs]
        show ?thesis by (auto simp: dom_fold_projects)
      qed
    qed
  qed
qed

lemma resolve_empty_scope:
  assumes "resolveDomains env tok k ds (m, errs) = (m', errs')" and "ds \<noteq> []"
    and "m' = Map.empty"
  shows "length errs < length errs'"
proof (cases ds)
  case Nil
  with assms show ?thesis by simp
next
  case (Cons d rest)
  show ?thesis
  proof (cases "env_ctxErr_resolving env k")
    case (Some e)
    with Cons assms show ?thesis by auto
  next
    case None
    show ?thesis
    proof (cases "env_ListProjectsForDomainName env tok d")
      case (Inl err)
      with None Cons assms resolve_grows[of env tok "Suc k" rest m
          "errs @ [domainError d (''failed to list projects for domain: '' @ err)]" m' errs']
      show ?thesis by auto
    next
      case (Inr ps)
      show ?thesis
      proof (cases "ps = []")
        case True
        with None Inr Cons assms resolve_grows[of env tok "Suc k" rest m
            "errs @ [domainError d ''no projects found for domain'']" m' errs']
        show ?thesis by auto
      next
        case False
        then obtain p where "p \<in> set ps" by (cases ps) auto
        with None Inr Cons assms False
          resolve_grows[of env tok "Suc k" rest "fold (\<lambda>p m. m(kp_ID p \<mapsto> d)) ps m" errs m' errs']
        have "kp_ID p \<in> dom m'" by (auto simp: dom_fold_projects)
        with assms(3) show ?thesis by simp
      qed
    qed
  qed
qed

lemma scopeTargets_empty: "scopeTargets Map.empty instances = []"
  by (simp add: scopeTargets_def List.map_filter_def)

lemma aggregate_json:
  "aggregate env errs ts sched = Some (resp, calls) \<Longrightarrow>
     \<exists>body. resp = JSON (if tu_Errors body = [] then 200 else 206) body"
proof -
  assume "aggregate env errs ts sched = Some (resp, calls)"
  then obtain s where "resp = respond env (length ts) s" unfolding aggregate_Some by blast
  then have "resp = JSON (if tu_Errors \<lparr>tu_Timestamp = env_now env, tu_TotalVMs = length ts,
        tu_CPUCoresUsed = totalCPUCoresUsed s, tu_RAMUsedGB = totalRAMUsedGB s,
        tu_Errors = usageErrors s\<rparr> = [] then 200 else 206)
      \<lparr>tu_Timestamp = env_now env, tu_TotalVMs = length ts,
        tu_CPUCoresUsed = totalCPUCoresUsed s, tu_RAMUsedGB = totalRAMUsedGB s,
        tu_Errors = usageErrors s\<rparr>"
    by (simp add: respond_def)
  then show ?thesis by blast
qed

section \<open>Evaluation of the handler on the concrete inputs\<close>

lemma unresolved_domains:
  "LoadDomainNames unresolvedEnv (env_DOMAINS_FILE unresolvedEnv) = Inr [''acme'']"
  by (simp add: unresolvedEnv_def demoEnv_def LoadDomainNames_def HasPrefix_def)

lemma unresolved_upstream:
  "env_GetAdminToken unresolvedEnv = Inr ''token''"
  "env_GetAllInstances unresolvedEnv = Inr [t_Instance vmA, t_Instance vmB]"
  by (simp_all add: unresolvedEnv_def demoEnv_def)

lemma unresolved_resolve:
  "resolveDomains unresolvedEnv ''token'' 0 [''acme''] (Map.empty, [])
     = (Map.empty, [domainError ''acme''
          ''failed to list projects for domain: domains request returned status 404''])"
  by (simp add: unresolvedEnv_def demoEnv_def)

lemma unresolved_answer:
  "getTotalUsage unresolvedEnv []
     = Some (JSON 206 \<lparr>tu_Timestamp = ''2024-01-01T00:10:00Z'', tu_TotalVMs = 0,
                       tu_CPUCoresUsed = 0, tu_RAMUsedGB = 0,
                       tu_Errors = [domainError ''acme''
                         ''failed to list projects for domain: domains request returned status 404'']\<rparr>,
             [])"
proof -
  have "env_now unresolvedEnv = ''2024-01-01T00:10:00Z''"
    by (simp add: unresolvedEnv_def demoEnv_def)
  with unresolved_domains unresolved_upstream unresolved_resolve show ?thesis
    by (simp add: getTotalUsage_def scopeTargets_empty aggregate_no_targets_now)
qed

lemma run_full:
  "run fullEnv [vmA, vmB] interleaved (dispatch [] None [vmA, vmB]) = Some finalAB"
  by (simp add: interleaved_def finalAB_def fanout_defs demo_defs fullEnv_def)

lemma full_scope:
  "LoadDomainNames fullEnv (env_DOMAINS_FILE fullEnv) = Inr [''acme'']"
  "env_GetAdminToken fullEnv = Inr ''token''"
  "env_GetAllInstances fullEnv = Inr [t_Instance vmA, t_Instance vmB]"
  "env_ctxErr_dispatch fullEnv = None"
  "env_now fullEnv = ''2024-01-01T00:10:00Z''"
  by (simp_all add: fullEnv_def demoEnv_def LoadDomainNames_def HasPrefix_def)

lemma full_resolve:
  "resolveDomains fullEnv ''token'' 0 [''acme''] (Map.empty, []) = ([''p1'' \<mapsto> ''acme''], [])"
  by (simp add: fullEnv_def demoEnv_def)

lemma full_targets:
  "scopeTargets [''p1'' \<mapsto> ''acme''] [t_Instance vmA, t_Instance vmB] = [vmA, vmB]"
  by (simp add: scopeTargets_def List.map_filter_def vmA_def vmB_def demoTarget_def
        demoInstance_def)

lemma full_run:
  "getTotalUsage fullEnv interleaved
     = Some (JSON 200 \<lparr>tu_Timestamp = ''2024-01-01T00:10:00Z'', tu_TotalVMs = 2,
                       tu_CPUCoresUsed = 3.5, tu_RAMUsedGB = 2, tu_Errors = []\<rparr>,
             [(1, ''b-vcpus''), (0, ''a-vcpus''), (0, ''a-memory'')])"
proof -
  have "getTotalUsage fullEnv interleaved = aggregate fullEnv [] [vmA, vmB] interleaved"
    using full_scope full_resolve full_targets by (simp add: getTotalUsage_def)
  also have "\<dots> = Some (respond fullEnv (length [vmA, vmB]) finalAB, measureCalls finalAB)"
    using run_full full_scope(4)
    by (simp add: aggregate_def waitReturns_def isExited_def finalAB_def)
  finally show ?thesis using full_scope(5) by (simp add: respond_def finalAB_def)
qed

section \<open>Properties of the CPU statistics\<close>





subsection \<open>Evaluation on the concrete counter\<close>




section \<open>The claims\<close>

text \<open>
  Claim C1, as amended. After \<^verbatim>\<open>wg.Wait()\<close> the totals and the error list are the sum and
  the union over exactly the dispatched targets, metric by metric: a worker that passed the
  check of the context adds the latest \<^verbatim>\<open>vcpus\<close> value when that call succeeded with data
  and the latest \<^verbatim>\<open>memory\<close> value (in GB) when that call succeeded with data, each
  independently of the other, and leaves one error per failed call; a worker that found
  the context cancelled adds nothing and leaves one cancellation error. No metric leaves
  more than one error, and a target adds to a total only through a call that succeeded
  with data.
\<close>

theorem accumulator_after_wait:
  assumes "run env ts sched (dispatch errs c ts) = Some s" and "waitReturns s"
  shows "length (workers s) = length ts
       \<and> totalCPUCoresUsed s
           = tally (\<lambda>x p. if p = Exited False then vcpusAdded env (fst x) (snd x) else 0)
               (enumerate 0 ts) (workers s)
       \<and> totalRAMUsedGB s
           = tally (\<lambda>x p. if p = Exited False then memoryAdded env (fst x) (snd x) else 0)
               (enumerate 0 ts) (workers s)
       \<and> mset (usageErrors s)
           = mset errs
             + tally (\<lambda>x p. if p = Exited False
                             then mset (metricErrors env ''vcpus'' (fst x) (snd x)
                                         @ metricErrors env ''memory'' (fst x) (snd x))
                             else {#cancelError (ctxErr s) (snd x)#})
                 (enumerate 0 ts) (workers s)
       \<and> length (metricErrors env key i t) \<le> 1
       \<and> (vcpusAdded env i t \<noteq> 0 \<longrightarrow>
            (\<exists>m ms. gi_Metrics (t_Instance t) ''vcpus'' = Some m
               \<and> env_GetMetricMeasures env i m = Inr ms \<and> ms \<noteq> []
               \<and> vcpusAdded env i t = mm_Value (last ms)))
       \<and> (memoryAdded env i t \<noteq> 0 \<longrightarrow>
            (\<exists>m ms. gi_Metrics (t_Instance t) ''memory'' = Some m
               \<and> env_GetMetricMeasures env i m = Inr ms \<and> ms \<noteq> []
               \<and> memoryAdded env i t = mm_Value (last ms) / 1024))"
proof -
  note inv = reachable_inv[OF assms(1)]
  have ex: "p = Exited True \<or> p = Exited False" if "(x, p) \<in> set (zip xs (workers s))" for x p
    and xs :: "(nat \<times> instanceWithDomain) list"
  proof -
    from that have "p \<in> set (workers s)" by (rule set_zip_rightD)
    with assms(2) show ?thesis
      by (cases p) (auto simp: waitReturns_def list_all_iff isExited_def)
  qed
  have "tally (cpuDone env) (enumerate 0 ts) (workers s)
          = tally (\<lambda>x p. if p = Exited False then vcpusAdded env (fst x) (snd x) else 0)
              (enumerate 0 ts) (workers s)"
    by (rule tally_cong) (use ex in \<open>auto simp: cpuDone_def pastVcpus_def\<close>)
  moreover have "tally (ramDone env) (enumerate 0 ts) (workers s)
          = tally (\<lambda>x p. if p = Exited False then memoryAdded env (fst x) (snd x) else 0)
              (enumerate 0 ts) (workers s)"
    by (rule tally_cong) (use ex in \<open>auto simp: ramDone_def pastMemory_def\<close>)
  moreover have "tally (errsDone env (ctxErr s)) (enumerate 0 ts) (workers s)
          = tally (\<lambda>x p. if p = Exited False
                             then mset (metricErrors env ''vcpus'' (fst x) (snd x)
                                         @ metricErrors env ''memory'' (fst x) (snd x))
                             else {#cancelError (ctxErr s) (snd x)#})
                 (enumerate 0 ts) (workers s)"
    by (rule tally_cong) (use ex in \<open>auto simp: errsDone_def pc_classes\<close>)
  moreover have "length (metricErrors env key i t) \<le> 1"
    by (simp add: metricErrors_def split: option.splits)
  moreover have "vcpusAdded env i t \<noteq> 0 \<longrightarrow>
            (\<exists>m ms. gi_Metrics (t_Instance t) ''vcpus'' = Some m
               \<and> env_GetMetricMeasures env i m = Inr ms \<and> ms \<noteq> []
               \<and> vcpusAdded env i t = mm_Value (last ms))"
    by (auto simp: vcpusAdded_def latestValue_def metricReply_def
          split: option.splits sum.splits if_splits)
  moreover have "memoryAdded env i t \<noteq> 0 \<longrightarrow>
            (\<exists>m ms. gi_Metrics (t_Instance t) ''memory'' = Some m
               \<and> env_GetMetricMeasures env i m = Inr ms \<and> ms \<noteq> []
               \<and> memoryAdded env i t = mm_Value (last ms) / 1024)"
    by (auto simp: memoryAdded_def latestValue_def metricReply_def
          split: option.splits sum.splits if_splits)
  ultimately show ?thesis using inv unfolding fanout_inv_def by simp
qed

theorem c1_counterexample:
  "fetchFailure (metricReply (demoEnv repliesHalf) ''memory'' 0 vmHalf) = Some ''timeout''
   \<and> run (demoEnv repliesHalf) [vmHalf] [Acquire 0, CheckCtx 0, Vcpus 0, Memory 0, Release 0]
         (dispatch [] None [vmHalf])
       = Some \<lparr>semaphore = 0, ctxErr = None, totalCPUCoresUsed = 3 / 2, totalRAMUsedGB = 0,
               usageErrors = [measuresError ''memory'' vmHalf ''timeout''],
               workers = [Exited False],
               measureCalls = [(0, ''c-vcpus''), (0, ''c-memory'')]\<rparr>"
  by (simp add: fanout_defs demo_defs measuresError_def metricReply_def fetchFailure_def)

theorem accumulator_after_wait_witness:
  "run (demoEnv repliesHalf) [vmHalf] (oneByOne 1) (dispatch [] None [vmHalf]) = Some finalHalf
   \<and> waitReturns finalHalf
   \<and> totalCPUCoresUsed finalHalf
        = tally (\<lambda>x p. if p = Exited False
                        then vcpusAdded (demoEnv repliesHalf) (fst x) (snd x) else 0)
            (enumerate 0 [vmHalf]) (workers finalHalf)
   \<and> totalCPUCoresUsed finalHalf = 3 / 2
   \<and> usageErrors finalHalf = [measuresError ''memory'' vmHalf ''timeout'']
   \<and> vcpusAdded (demoEnv repliesHalf) 0 vmHalf = 3 / 2
   \<and> gi_Metrics (t_Instance vmHalf) ''vcpus'' = Some ''c-vcpus''
   \<and> env_GetMetricMeasures (demoEnv repliesHalf) 0 ''c-vcpus'' = demoSeries (3 / 2)"
proof -
  have w: "waitReturns finalHalf"
    by (simp add: waitReturns_def finalHalf_def isExited_def)
  have v: "vcpusAdded (demoEnv repliesHalf) 0 vmHalf = 3 / 2"
    "gi_Metrics (t_Instance vmHalf) ''vcpus'' = Some ''c-vcpus''"
    "env_GetMetricMeasures (demoEnv repliesHalf) 0 ''c-vcpus'' = demoSeries (3 / 2)"
    by (simp_all add: vcpusAdded_def latestValue_def metricReply_def demo_defs)
  from accumulator_after_wait[OF run_half w, where i = 0 and t = vmHalf] run_half w v
  show ?thesis by (simp add: finalHalf_def)
qed

text \<open>
  Claim C2 (no double counting). In every run, the \<^verbatim>\<open>vcpus\<close> block of a worker is executed
  at most once and so is its \<^verbatim>\<open>memory\<close> block; the CPU total is the sum, over the
  dispatched targets, of the number of executions of the target's \<^verbatim>\<open>vcpus\<close> block (0 or
  1) times the value the block adds, and likewise for the RAM total.
\<close>

theorem no_double_counting:
  assumes "run env ts sched (dispatch errs c ts) = Some s"
  shows "(\<forall>i. count_list sched (Vcpus i) \<le> 1 \<and> count_list sched (Memory i) \<le> 1)
       \<and> totalCPUCoresUsed s
           = (\<Sum>x\<leftarrow>enumerate 0 ts.
                of_nat (count_list sched (Vcpus (fst x))) * vcpusAdded env (fst x) (snd x))
       \<and> totalRAMUsedGB s
           = (\<Sum>x\<leftarrow>enumerate 0 ts.
                of_nat (count_list sched (Memory (fst x))) * memoryAdded env (fst x) (snd x))"
proof (intro conjI allI)
  note inv = reachable_inv[OF assms]
  then have len: "length (workers s) = length (enumerate 0 ts)"
    unfolding fanout_inv_def by simp
  fix i
  show "count_list sched (Vcpus i) \<le> 1"
  proof (cases "i < length ts")
    case True
    from history[OF assms True] show ?thesis by simp
  next
    case False
    with run_event_range[OF assms, of "Vcpus i" i] have "Vcpus i \<notin> set sched" by blast
    then show ?thesis by (simp add: count_list_0_iff)
  qed
  show "count_list sched (Memory i) \<le> 1"
  proof (cases "i < length ts")
    case True
    from history[OF assms True] show ?thesis by simp
  next
    case False
    with run_event_range[OF assms, of "Memory i" i] have "Memory i \<notin> set sched" by blast
    then show ?thesis by (simp add: count_list_0_iff)
  qed
next
  note inv = reachable_inv[OF assms]
  then have len: "length (workers s) = length (enumerate 0 ts)"
    unfolding fanout_inv_def by simp
  have "tally (cpuDone env) (enumerate 0 ts) (workers s)
          = (\<Sum>x\<leftarrow>enumerate 0 ts.
                of_nat (count_list sched (Vcpus (fst x))) * vcpusAdded env (fst x) (snd x))"
  proof (rule tally_pointwise[OF len])
    fix i assume "i < length (enumerate 0 ts)"
    then have i: "i < length ts" by simp
    from history[OF assms i] i
    show "cpuDone env (enumerate 0 ts ! i) (workers s ! i)
            = of_nat (count_list sched (Vcpus (fst (enumerate 0 ts ! i))))
                * vcpusAdded env (fst (enumerate 0 ts ! i)) (snd (enumerate 0 ts ! i))"
      by (simp add: cpuDone_def nth_enum)
  qed
  with inv show "totalCPUCoresUsed s
           = (\<Sum>x\<leftarrow>enumerate 0 ts.
                of_nat (count_list sched (Vcpus (fst x))) * vcpusAdded env (fst x) (snd x))"
    unfolding fanout_inv_def by simp
  have "tally (ramDone env) (enumerate 0 ts) (workers s)
          = (\<Sum>x\<leftarrow>enumerate 0 ts.
                of_nat (count_list sched (Memory (fst x))) * memoryAdded env (fst x) (snd x))"
  proof (rule tally_pointwise[OF len])
    fix i assume "i < length (enumerate 0 ts)"
    then have i: "i < length ts" by simp
    from history[OF assms i] i
    show "ramDone env (enumerate 0 ts ! i) (workers s ! i)
            = of_nat (count_list sched (Memory (fst (enumerate 0 ts ! i))))
                * memoryAdded env (fst (enumerate 0 ts ! i)) (snd (enumerate 0 ts ! i))"
      by (simp add: ramDone_def nth_enum)
  qed
  with inv show "totalRAMUsedGB s
           = (\<Sum>x\<leftarrow>enumerate 0 ts.
                of_nat (count_list sched (Memory (fst x))) * memoryAdded env (fst x) (snd x))"
    unfolding fanout_inv_def by simp
qed

theorem no_double_counting_witness:
  "run (demoEnv repliesAB) [vmA, vmB] interleaved (dispatch [] None [vmA, vmB]) = Some finalAB
   \<and> count_list interleaved (Vcpus 0) \<le> 1 \<and> count_list interleaved (Memory 0) \<le> 1
   \<and> totalCPUCoresUsed finalAB
        = (\<Sum>x\<leftarrow>enumerate 0 [vmA, vmB].
             of_nat (count_list interleaved (Vcpus (fst x)))
               * vcpusAdded (demoEnv repliesAB) (fst x) (snd x))"
  using no_double_counting[OF run_interleaved] run_interleaved by simp

text \<open>
  Claim C3 (the literal scenario). Two targets: the latest \<^verbatim>\<open>vcpus\<close> sample of the first
  is 1.5 and its latest \<^verbatim>\<open>memory\<close> sample is 2048; the latest \<^verbatim>\<open>vcpus\<close> sample of the
  second is 2 and it has no \<^verbatim>\<open>memory\<close> key. With no error from the scope resolution and
  no cancellation, every answer is status 200 with \<open>total_vms = 2\<close>,
  \<open>cpu_cores_used = 3.5\<close>, \<open>ram_used_gb = 2\<close> and no errors, and there is a schedule
  without cancellation on which the handler answers.
\<close>

theorem concrete_scenario:
  assumes "latestValue (metricReply env ''vcpus'' 0 a) = Some 1.5"
    and "latestValue (metricReply env ''memory'' 0 a) = Some 2048"
    and "latestValue (metricReply env ''vcpus'' 1 b) = Some 2"
    and "gi_Metrics (t_Instance b) ''memory'' = None"
    and "env_ctxErr_dispatch env = None" and "list_all (\<lambda>e. \<not> isCtxDone e) sched"
    and "aggregate env [] [a, b] sched = Some (resp, calls)"
  shows "resp = JSON 200 \<lparr>tu_Timestamp = env_now env, tu_TotalVMs = 2, tu_CPUCoresUsed = 3.5,
                          tu_RAMUsedGB = 2, tu_Errors = []\<rparr>
       \<and> (\<exists>sched' r. list_all (\<lambda>e. \<not> isCtxDone e) sched'
              \<and> aggregate env [] [a, b] sched' = Some r)"
proof -
  from assms(5,7) obtain s where run: "run env [a, b] sched (dispatch [] None [a, b]) = Some s"
    and wait: "waitReturns s" and resp: "resp = respond env (length [a, b]) s"
    unfolding aggregate_Some by auto
  note tot = all_ran_totals[OF run assms(6) wait]
  have "metricErrors env ''vcpus'' 0 a = []" "metricErrors env ''memory'' 0 a = []"
    "metricErrors env ''vcpus'' 1 b = []"
    using latest_no_failure[OF assms(1)] latest_no_failure[OF assms(2)]
      latest_no_failure[OF assms(3)]
    by (simp_all add: metricErrors_def)
  moreover have "metricErrors env ''memory'' 1 b = []"
    using assms(4) by (simp add: metricErrors_def metricReply_def fetchFailure_def)
  ultimately have "usageErrors s = []" using tot(3) by simp
  moreover have "vcpusAdded env 0 a = 1.5" "vcpusAdded env 1 b = 2"
    using assms(1,3) by (simp_all add: vcpusAdded_def)
  with tot(1) have "totalCPUCoresUsed s = 3.5" by simp
  moreover have "memoryAdded env 0 a = 2" using assms(2) by (simp add: memoryAdded_def)
  moreover have "memoryAdded env 1 b = 0"
    using assms(4) by (simp add: memoryAdded_def metricReply_def latestValue_def)
  ultimately have "totalRAMUsedGB s = 2" "totalCPUCoresUsed s = 3.5" "usageErrors s = []"
    using tot(2) by simp_all
  with resp aggregate_returns[of env "[]" "[a, b]"] show ?thesis by (simp add: respond_def)
qed

theorem concrete_scenario_witness:
  "latestValue (metricReply (demoEnv repliesAB) ''vcpus'' 0 vmA) = Some 1.5
   \<and> latestValue (metricReply (demoEnv repliesAB) ''memory'' 0 vmA) = Some 2048
   \<and> latestValue (metricReply (demoEnv repliesAB) ''vcpus'' 1 vmB) = Some 2
   \<and> gi_Metrics (t_Instance vmB) ''memory'' = None
   \<and> env_ctxErr_dispatch (demoEnv repliesAB) = None
   \<and> list_all (\<lambda>e. \<not> isCtxDone e) interleaved
   \<and> aggregate (demoEnv repliesAB) [] [vmA, vmB] interleaved
       = Some (JSON 200 \<lparr>tu_Timestamp = env_now (demoEnv repliesAB), tu_TotalVMs = 2,
                         tu_CPUCoresUsed = 3.5, tu_RAMUsedGB = 2, tu_Errors = []\<rparr>,
               [(1, ''b-vcpus''), (0, ''a-vcpus''), (0, ''a-memory'')])"
proof -
  have h1: "latestValue (metricReply (demoEnv repliesAB) ''vcpus'' 0 vmA) = Some 1.5"
    and h2: "latestValue (metricReply (demoEnv repliesAB) ''memory'' 0 vmA) = Some 2048"
    and h3: "latestValue (metricReply (demoEnv repliesAB) ''vcpus'' 1 vmB) = Some 2"
    and h4: "gi_Metrics (t_Instance vmB) ''memory'' = None"
    and h5: "env_ctxErr_dispatch (demoEnv repliesAB) = None"
    by (simp_all add: latestValue_def metricReply_def demo_defs)
  have h6: "list_all (\<lambda>e. \<not> isCtxDone e) interleaved"
    by (simp add: interleaved_def isCtxDone_def)
  from concrete_scenario[OF h1 h2 h3 h4 h5 h6 aggregate_AB] h1 h2 h3 h4 h5 h6 aggregate_AB
  show ?thesis by (simp add: demoEnv_def)
qed

text \<open>
  Claim C4 (partial result on mixed failures). The fan-out answers on some schedule, and
  every answer is a JSON body whose \<open>total_vms\<close> is the number of scoped targets, however
  many of them succeeded. With no error from the scope resolution, no cancellation and no
  failing \<^verbatim>\<open>memory\<close> call, the error list has one entry per target whose \<^verbatim>\<open>vcpus\<close> call
  fails, and \<open>cpu_cores_used\<close> is the sum of the values of exactly the other targets.
\<close>

theorem partial_result_mixed_failures:
  assumes "aggregate env errs ts sched = Some (resp, calls)"
  shows "(\<exists>sched' r. list_all (\<lambda>e. \<not> isCtxDone e) sched'
            \<and> aggregate env errs ts sched' = Some r)
       \<and> (\<exists>status body. resp = JSON status body \<and> tu_TotalVMs body = length ts
       \<and> (errs = [] \<and> env_ctxErr_dispatch env = None \<and> list_all (\<lambda>e. \<not> isCtxDone e) sched
            \<and> list_all (\<lambda>x. \<not> metricFails env ''memory'' x) (enumerate 0 ts)
          \<longrightarrow> length (tu_Errors body) = length (filter (metricFails env ''vcpus'') (enumerate 0 ts))
            \<and> tu_CPUCoresUsed body
                = (\<Sum>x\<leftarrow>filter (\<lambda>x. \<not> metricFails env ''vcpus'' x) (enumerate 0 ts).
                     vcpusAdded env (fst x) (snd x))
            \<and> status = (if filter (metricFails env ''vcpus'') (enumerate 0 ts) = []
                         then 200 else 206)))"
proof -
  from assms obtain s
    where run: "run env ts sched (dispatch errs (env_ctxErr_dispatch env) ts) = Some s"
    and wait: "waitReturns s" and resp: "resp = respond env (length ts) s"
    unfolding aggregate_Some by auto
  let ?fails = "filter (metricFails env ''vcpus'') (enumerate 0 ts)"
  have "length (usageErrors s) = length ?fails
      \<and> totalCPUCoresUsed s
           = (\<Sum>x\<leftarrow>filter (\<lambda>x. \<not> metricFails env ''vcpus'' x) (enumerate 0 ts).
                vcpusAdded env (fst x) (snd x))"
    if quiet: "errs = [] \<and> env_ctxErr_dispatch env = None
        \<and> list_all (\<lambda>e. \<not> isCtxDone e) sched
        \<and> list_all (\<lambda>x. \<not> metricFails env ''memory'' x) (enumerate 0 ts)"
  proof -
    from quiet run have run': "run env ts sched (dispatch [] None ts) = Some s" by simp
    from quiet have q: "list_all (\<lambda>e. \<not> isCtxDone e) sched" by simp
    note tot = all_ran_totals[OF run' q wait]
    have nomem: "metricErrors env ''memory'' (fst x) (snd x) = []"
      if "x \<in> set (enumerate 0 ts)" for x
      using quiet that metricErrors_size[of env "''memory''" "fst x" "snd x"]
      by (auto simp: list_all_iff)
    have "(\<Sum>x\<leftarrow>enumerate 0 ts. mset (metricErrors env ''vcpus'' (fst x) (snd x))
                                   + mset (metricErrors env ''memory'' (fst x) (snd x)))
        = (\<Sum>x\<leftarrow>enumerate 0 ts. mset (metricErrors env ''vcpus'' (fst x) (snd x)))"
      by (rule arg_cong[where f = sum_list], rule map_cong) (simp_all add: nomem)
    with tot(3) have "size (mset (usageErrors s))
        = size (\<Sum>x\<leftarrow>enumerate 0 ts. mset (metricErrors env ''vcpus'' (fst x) (snd x)))"
      by simp
    also have "\<dots> = (\<Sum>x\<leftarrow>enumerate 0 ts. if metricFails env ''vcpus'' x then 1 else 0)"
      unfolding size_sum_list_mset
      by (rule arg_cong[where f = sum_list], rule map_cong)
         (simp_all add: metricErrors_size)
    finally have e: "length (usageErrors s) = length ?fails"
      by (simp add: count_filter_sum)
    have "(\<Sum>x\<leftarrow>filter (\<lambda>x. \<not> metricFails env ''vcpus'' x) (enumerate 0 ts).
                vcpusAdded env (fst x) (snd x))
        = (\<Sum>x\<leftarrow>enumerate 0 ts. if \<not> metricFails env ''vcpus'' x
                                  then vcpusAdded env (fst x) (snd x) else 0)"
      by (rule sum_list_map_filter')
    also have "\<dots> = (\<Sum>x\<leftarrow>enumerate 0 ts. vcpusAdded env (fst x) (snd x))"
      by (rule arg_cong[where f = sum_list], rule map_cong)
         (simp_all add: failed_adds_nothing)
    finally show ?thesis using tot(1) e by simp
  qed
  with resp have "\<exists>status body. resp = JSON status body \<and> tu_TotalVMs body = length ts
       \<and> (errs = [] \<and> env_ctxErr_dispatch env = None \<and> list_all (\<lambda>e. \<not> isCtxDone e) sched
            \<and> list_all (\<lambda>x. \<not> metricFails env ''memory'' x) (enumerate 0 ts)
          \<longrightarrow> length (tu_Errors body) = length (filter (metricFails env ''vcpus'') (enumerate 0 ts))
            \<and> tu_CPUCoresUsed body
                = (\<Sum>x\<leftarrow>filter (\<lambda>x. \<not> metricFails env ''vcpus'' x) (enumerate 0 ts).
                     vcpusAdded env (fst x) (snd x))
            \<and> status = (if filter (metricFails env ''vcpus'') (enumerate 0 ts) = []
                         then 200 else 206))"
    by (auto simp: respond_def)
  with aggregate_returns[of env errs ts] show ?thesis by blast
qed

theorem partial_result_mixed_failures_witness:
  "aggregate (demoEnv replies10) [] (replicate 10 vmCpuOnly) (oneByOne 10)
     = Some (JSON 206 \<lparr>tu_Timestamp = ''2024-01-01T00:10:00Z'', tu_TotalVMs = 10,
                       tu_CPUCoresUsed = 42, tu_RAMUsedGB = 0,
                       tu_Errors = replicate 3 (measuresError ''vcpus'' vmCpuOnly ''timeout'')\<rparr>,
             map (\<lambda>i. (i, ''series'')) [0..<10])
   \<and> env_ctxErr_dispatch (demoEnv replies10) = None
   \<and> list_all (\<lambda>e. \<not> isCtxDone e) (oneByOne 10)
   \<and> list_all (\<lambda>x. \<not> metricFails (demoEnv replies10) ''memory'' x)
        (enumerate 0 (replicate 10 vmCpuOnly))
   \<and> length (filter (metricFails (demoEnv replies10) ''vcpus'')
        (enumerate 0 (replicate 10 vmCpuOnly))) = 3
   \<and> length (filter (\<lambda>x. \<not> metricFails (demoEnv replies10) ''vcpus'' x)
        (enumerate 0 (replicate 10 vmCpuOnly))) = 7
   \<and> (\<Sum>x\<leftarrow>filter (\<lambda>x. \<not> metricFails (demoEnv replies10) ''vcpus'' x)
            (enumerate 0 (replicate 10 vmCpuOnly)).
         vcpusAdded (demoEnv replies10) (fst x) (snd x)) = 42"
  using partial_result_mixed_failures[OF aggregate_ten] aggregate_ten ten_hyps
  by auto

text \<open>
  Claim C5, as amended. When the domain list cannot be read the request fails with status
  500, and when it holds no domain name the request fails with status 400; in both cases
  nothing else is called. When the list is not empty and the token and the inventory are
  obtained, but no domain resolves to any project, the request does not fail: it answers
  with status 206, \<open>total_vms = 0\<close>, zero totals and the errors of the scope resolution,
  of which there is at least one, and no metric call is made.
\<close>

theorem empty_scope_outcome:
  "(\<forall>err. LoadDomainNames env (env_DOMAINS_FILE env) = Inl err \<longrightarrow>
      getTotalUsage env sched
        = Some (PlainError 500
                  (''failed to load domain list from '' @ env_DOMAINS_FILE env @ '': '' @ err),
                []))
   \<and> (LoadDomainNames env (env_DOMAINS_FILE env) = Inr [] \<longrightarrow>
        getTotalUsage env sched
          = Some (PlainError 400 ''no domains configured in domain.txt'', []))
   \<and> (\<forall>ds tok instances errs.
        LoadDomainNames env (env_DOMAINS_FILE env) = Inr ds \<and> ds \<noteq> []
        \<and> env_GetAdminToken env = Inr tok \<and> env_GetAllInstances env = Inr instances
        \<and> resolveDomains env tok 0 ds (Map.empty, []) = (Map.empty, errs)
        \<longrightarrow> errs \<noteq> []
          \<and> getTotalUsage env []
              = Some (JSON 206 \<lparr>tu_Timestamp = env_now env, tu_TotalVMs = 0,
                                tu_CPUCoresUsed = 0, tu_RAMUsedGB = 0, tu_Errors = errs\<rparr>, [])
          \<and> (\<forall>resp calls. getTotalUsage env sched = Some (resp, calls) \<longrightarrow>
                calls = []
                \<and> resp = JSON 206 \<lparr>tu_Timestamp = env_now env, tu_TotalVMs = 0,
                                   tu_CPUCoresUsed = 0, tu_RAMUsedGB = 0, tu_Errors = errs\<rparr>))"
proof (intro conjI allI impI)
  fix err assume "LoadDomainNames env (env_DOMAINS_FILE env) = Inl err"
  then show "getTotalUsage env sched
        = Some (PlainError 500
                  (''failed to load domain list from '' @ env_DOMAINS_FILE env @ '': '' @ err),
                [])"
    by (simp add: getTotalUsage_def)
next
  assume "LoadDomainNames env (env_DOMAINS_FILE env) = Inr []"
  then show "getTotalUsage env sched
          = Some (PlainError 400 ''no domains configured in domain.txt'', [])"
    by (simp add: getTotalUsage_def)
next
  fix ds tok instances errs
  assume h: "LoadDomainNames env (env_DOMAINS_FILE env) = Inr ds \<and> ds \<noteq> []
        \<and> env_GetAdminToken env = Inr tok \<and> env_GetAllInstances env = Inr instances
        \<and> resolveDomains env tok 0 ds (Map.empty, []) = (Map.empty, errs)"
  then have ne: "ds \<noteq> []"
    and res: "resolveDomains env tok 0 ds (Map.empty, []) = (Map.empty, errs)" by simp_all
  from resolve_empty_scope[OF res ne] show errs: "errs \<noteq> []" by auto
  from h have g: "getTotalUsage env s = aggregate env errs [] s" for s
    by (simp add: getTotalUsage_def scopeTargets_empty)
  from errs show "getTotalUsage env []
              = Some (JSON 206 \<lparr>tu_Timestamp = env_now env, tu_TotalVMs = 0,
                                tu_CPUCoresUsed = 0, tu_RAMUsedGB = 0, tu_Errors = errs\<rparr>, [])"
    unfolding g by (simp add: aggregate_no_targets_now)
  fix resp calls assume "getTotalUsage env sched = Some (resp, calls)"
  with g have "aggregate env errs [] sched = Some (resp, calls)" by simp
  from aggregate_no_targets[OF this] errs
  show "calls = []"
    and "resp = JSON 206 \<lparr>tu_Timestamp = env_now env, tu_TotalVMs = 0,
                           tu_CPUCoresUsed = 0, tu_RAMUsedGB = 0, tu_Errors = errs\<rparr>"
    by simp_all
qed

theorem c5_counterexample:
  "resolveDomains unresolvedEnv ''token'' 0 [''acme''] (Map.empty, [])
     = (Map.empty, [domainError ''acme''
          ''failed to list projects for domain: domains request returned status 404''])
   \<and> getTotalUsage unresolvedEnv []
     = Some (JSON 206 \<lparr>tu_Timestamp = ''2024-01-01T00:10:00Z'', tu_TotalVMs = 0,
                       tu_CPUCoresUsed = 0, tu_RAMUsedGB = 0,
                       tu_Errors = [domainError ''acme''
                         ''failed to list projects for domain: domains request returned status 404'']\<rparr>,
             [])"
  using unresolved_resolve unresolved_answer by blast

theorem empty_scope_outcome_witness:
  "LoadDomainNames unresolvedEnv (env_DOMAINS_FILE unresolvedEnv) = Inr [''acme'']
   \<and> [''acme''] \<noteq> []
   \<and> env_GetAdminToken unresolvedEnv = Inr ''token''
   \<and> env_GetAllInstances unresolvedEnv = Inr [t_Instance vmA, t_Instance vmB]
   \<and> resolveDomains unresolvedEnv ''token'' 0 [''acme''] (Map.empty, [])
       = (Map.empty, [domainError ''acme''
            ''failed to list projects for domain: domains request returned status 404''])
   \<and> getTotalUsage unresolvedEnv []
       = Some (JSON 206 \<lparr>tu_Timestamp = env_now unresolvedEnv, tu_TotalVMs = 0,
                         tu_CPUCoresUsed = 0, tu_RAMUsedGB = 0,
                         tu_Errors = [domainError ''acme''
                           ''failed to list projects for domain: domains request returned status 404'']\<rparr>,
               [])"
proof -
  have h: "LoadDomainNames unresolvedEnv (env_DOMAINS_FILE unresolvedEnv) = Inr [''acme'']
     \<and> [''acme''] \<noteq> []
     \<and> env_GetAdminToken unresolvedEnv = Inr ''token''
     \<and> env_GetAllInstances unresolvedEnv = Inr [t_Instance vmA, t_Instance vmB]
     \<and> resolveDomains unresolvedEnv ''token'' 0 [''acme''] (Map.empty, [])
         = (Map.empty, [domainError ''acme''
              ''failed to list projects for domain: domains request returned status 404''])"
    using unresolved_domains unresolved_upstream unresolved_resolve by simp
  from empty_scope_outcome[of unresolvedEnv "[]", THEN conjunct2, THEN conjunct2,
      rule_format, OF h] h
  show ?thesis by blast
qed

text \<open>
  Claim C6, as amended. If the handler gives up before the fan-out, it answers with a plain
  error of status \<open>fatalStatus\<close> on every schedule and no metric call is made: 500 exactly
  when the domain list cannot be read or the inventory fetch fails, 401 exactly when the
  token acquisition fails, 400 exactly when the domain list is empty. Otherwise it answers
  on some schedule, and every answer is a JSON body with status 200 if its error list is
  empty and 206 if not.
\<close>

theorem status_mapping:
  "(case fatalStatus env of
      Some c \<Rightarrow> \<exists>msg. getTotalUsage env sched = Some (PlainError c msg, [])
    | None \<Rightarrow>
        (\<exists>sched' r. getTotalUsage env sched' = Some r)
        \<and> (\<forall>resp calls. getTotalUsage env sched = Some (resp, calls) \<longrightarrow>
              (\<exists>body. resp = JSON (if tu_Errors body = [] then 200 else 206) body)))
   \<and> (fatalStatus env = Some 500 \<longleftrightarrow>
        (\<exists>err. LoadDomainNames env (env_DOMAINS_FILE env) = Inl err)
        \<or> (\<exists>ds tok err. LoadDomainNames env (env_DOMAINS_FILE env) = Inr ds \<and> ds \<noteq> []
              \<and> env_GetAdminToken env = Inr tok \<and> env_GetAllInstances env = Inl err))
   \<and> (fatalStatus env = Some 401 \<longleftrightarrow>
        (\<exists>ds err. LoadDomainNames env (env_DOMAINS_FILE env) = Inr ds \<and> ds \<noteq> []
              \<and> env_GetAdminToken env = Inl err))
   \<and> (fatalStatus env = Some 400 \<longleftrightarrow> LoadDomainNames env (env_DOMAINS_FILE env) = Inr [])"
proof (intro conjI)
  show "case fatalStatus env of
      Some c \<Rightarrow> \<exists>msg. getTotalUsage env sched = Some (PlainError c msg, [])
    | None \<Rightarrow>
        (\<exists>sched' r. getTotalUsage env sched' = Some r)
        \<and> (\<forall>resp calls. getTotalUsage env sched = Some (resp, calls) \<longrightarrow>
              (\<exists>body. resp = JSON (if tu_Errors body = [] then 200 else 206) body))"
  proof (cases "fatalStatus env")
    case (Some c)
    then show ?thesis
      by (auto simp: fatalStatus_def getTotalUsage_def split: sum.splits if_splits)
  next
    case None
    then obtain ds tok instances where h: "LoadDomainNames env (env_DOMAINS_FILE env) = Inr ds"
      "ds \<noteq> []" "env_GetAdminToken env = Inr tok" "env_GetAllInstances env = Inr instances"
      by (auto simp: fatalStatus_def split: sum.splits if_splits)
    obtain m errs where r: "resolveDomains env tok 0 ds (Map.empty, []) = (m, errs)"
      by (cases "resolveDomains env tok 0 ds (Map.empty, [])") auto
    from h r have g: "getTotalUsage env s = aggregate env errs (scopeTargets m instances) s" for s
      by (simp add: getTotalUsage_def)
    from aggregate_returns[of env errs "scopeTargets m instances"]
    have "\<exists>sched' r. getTotalUsage env sched' = Some r" unfolding g by blast
    moreover have "\<forall>resp calls. getTotalUsage env sched = Some (resp, calls) \<longrightarrow>
              (\<exists>body. resp = JSON (if tu_Errors body = [] then 200 else 206) body)"
      unfolding g using aggregate_json by blast
    ultimately show ?thesis using None by simp
  qed
qed (auto simp: fatalStatus_def split: sum.splits if_splits)

theorem c6_counterexample:
  "LoadDomainNames noDomainsEnv (env_DOMAINS_FILE noDomainsEnv) = Inr []
   \<and> getTotalUsage noDomainsEnv []
       = Some (PlainError 400 ''no domains configured in domain.txt'', [])"
proof -
  have l: "LoadDomainNames noDomainsEnv (env_DOMAINS_FILE noDomainsEnv) = Inr []"
    by (simp add: noDomainsEnv_def demoEnv_def LoadDomainNames_def HasPrefix_def)
  then show ?thesis by (simp add: getTotalUsage_def)
qed

theorem status_mapping_witness:
  "fatalStatus fullEnv = None
   \<and> getTotalUsage fullEnv interleaved
       = Some (JSON 200 \<lparr>tu_Timestamp = ''2024-01-01T00:10:00Z'', tu_TotalVMs = 2,
                         tu_CPUCoresUsed = 3.5, tu_RAMUsedGB = 2, tu_Errors = []\<rparr>,
               [(1, ''b-vcpus''), (0, ''a-vcpus''), (0, ''a-memory'')])
   \<and> (\<exists>sched' r. getTotalUsage fullEnv sched' = Some r)"
proof -
  have f: "fatalStatus fullEnv = None"
    using full_scope by (simp add: fatalStatus_def)
  from status_mapping[of fullEnv interleaved, THEN conjunct1] f
  have "\<exists>sched' r. getTotalUsage fullEnv sched' = Some r" by simp
  with f full_run show ?thesis by blast
qed

text \<open>
  Claim C7 (cancellation before task start). A worker that reads a cancelled context at its
  check appends exactly one error, which carries the instance id and the project id of its
  target, and goes to its deferred calls; in no run has such a worker made a metric call.
  With the context already cancelled when the workers start, no run is stuck or endless:
  each can be continued to an answer of the handler. Every answer has made no metric call,
  has zero totals, counts all targets and holds, besides the errors of the scope
  resolution, one cancellation error per target.
\<close>

theorem cancelled_before_start:
  assumes "env_ctxErr_dispatch env = Some e"
  shows "(\<forall>s i. ctxErr s = Some e \<and> i < length ts \<and> pcAt s i = Some Acquired \<longrightarrow>
             step env ts (CheckCtx i) s
               = Some (s\<lparr>usageErrors := usageErrors s @ [cancelError (Some e) (ts ! i)],
                        workers := (workers s)[i := Returning True]\<rparr>)
             \<and> ue_InstanceID (cancelError (Some e) (ts ! i)) = gi_ID (t_Instance (ts ! i))
             \<and> ue_ProjectID (cancelError (Some e) (ts ! i)) = gi_ProjectID (t_Instance (ts ! i)))
       \<and> (\<forall>c sched s i m. run env ts sched (dispatch errs c ts) = Some s \<and> i < length ts
             \<and> tookCancel (workers s ! i) \<longrightarrow> (i, m) \<notin> set (measureCalls s))
       \<and> (\<forall>sched s. run env ts sched (dispatch errs (Some e) ts) = Some s \<longrightarrow>
             length sched \<le> 5 * length ts + 1
             \<and> (\<exists>rest r. aggregate env errs ts (sched @ rest) = Some r))
       \<and> (\<forall>sched resp calls. aggregate env errs ts sched = Some (resp, calls) \<longrightarrow>
            calls = []
            \<and> (\<exists>body. resp = JSON (if errs = [] \<and> ts = [] then 200 else 206) body
                 \<and> tu_TotalVMs body = length ts
                 \<and> tu_CPUCoresUsed body = 0 \<and> tu_RAMUsedGB body = 0
                 \<and> mset (tu_Errors body) = mset errs + mset (map (cancelError (Some e)) ts)))"
proof (intro conjI allI impI)
  fix c sched s i m
  assume "run env ts sched (dispatch errs c ts) = Some s \<and> i < length ts
             \<and> tookCancel (workers s ! i)"
  then show "(i, m) \<notin> set (measureCalls s)"
    using cancelled_made_no_call by blast
next
  fix sched s
  assume run: "run env ts sched (dispatch errs (Some e) ts) = Some s"
  from run_completes(2)[OF run] show "length sched \<le> 5 * length ts + 1" .
  from run_completes(1)[OF run] obtain rest s'
    where "run env ts (sched @ rest) (dispatch errs (Some e) ts) = Some s'" "waitReturns s'"
    by blast
  with assms
  have "aggregate env errs ts (sched @ rest) = Some (respond env (length ts) s', measureCalls s')"
    by (simp add: aggregate_def)
  then show "\<exists>rest r. aggregate env errs ts (sched @ rest) = Some r" by blast
next
  fix s i
  assume "ctxErr s = Some e \<and> i < length ts \<and> pcAt s i = Some Acquired"
  then show "step env ts (CheckCtx i) s
               = Some (s\<lparr>usageErrors := usageErrors s @ [cancelError (Some e) (ts ! i)],
                        workers := (workers s)[i := Returning True]\<rparr>)"
    by (simp add: checkCtx_def setPc_def)
  show "ue_InstanceID (cancelError (Some e) (ts ! i)) = gi_ID (t_Instance (ts ! i))"
    and "ue_ProjectID (cancelError (Some e) (ts ! i)) = gi_ProjectID (t_Instance (ts ! i))"
    by (simp_all add: cancelError_def)
next
  fix sched resp calls
  assume "aggregate env errs ts sched = Some (resp, calls)"
  with assms obtain s where run: "run env ts sched (dispatch errs (Some e) ts) = Some s"
    and wait: "waitReturns s" and resp: "resp = respond env (length ts) s"
    and calls: "calls = measureCalls s"
    unfolding aggregate_Some by auto
  note inv = reachable_inv[OF run]
  then have len: "length (workers s) = length (enumerate 0 ts)"
    unfolding fanout_inv_def by simp
  have "list_all cancelOnly (workers s) \<and> ctxErr s = Some e"
    by (rule run_cancel_only[OF run])
       (simp_all add: dispatch_def cancelOnly_def list_all_iff)
  then have co: "list_all cancelOnly (workers s)" and ctx: "ctxErr s = Some e" by simp_all
  have ex: "\<And>p. p \<in> set (workers s) \<Longrightarrow> p = Exited True"
    by (rule exited_cancel_only[OF wait co])
  have "tally (cpuDone env) (enumerate 0 ts) (workers s) = 0"
    by (rule tally_zero) (auto dest!: set_zip_rightD ex simp: cpuDone_def pastVcpus_def)
  with inv have cpu: "totalCPUCoresUsed s = 0" unfolding fanout_inv_def by simp
  have "tally (ramDone env) (enumerate 0 ts) (workers s) = 0"
    by (rule tally_zero) (auto dest!: set_zip_rightD ex simp: ramDone_def pastMemory_def)
  with inv have ram: "totalRAMUsedGB s = 0" unfolding fanout_inv_def by simp
  have "tally callsDone (enumerate 0 ts) (workers s) = {#}"
    by (rule tally_zero)
       (auto dest!: set_zip_rightD ex simp: callsDone_def pastVcpus_def pastMemory_def)
  with inv have "mset (measureCalls s) = {#}" unfolding fanout_inv_def by simp
  with calls show "calls = []" by simp
  have t1: "tally (errsDone env (Some e)) (enumerate 0 ts) (workers s)
          = (\<Sum>x\<leftarrow>enumerate 0 ts. {#cancelError (Some e) (snd x)#})"
    by (rule tally_pointwise[OF len])
       (use ex len in \<open>simp add: errsDone_def tookCancel_def\<close>)
  from inv ctx have "mset (usageErrors s)
      = mset errs + tally (errsDone env (Some e)) (enumerate 0 ts) (workers s)"
    unfolding fanout_inv_def by simp
  then have ers: "mset (usageErrors s) = mset errs + mset (map (cancelError (Some e)) ts)"
    unfolding t1 sum_singletons .
  then have "size (mset (usageErrors s)) = length errs + length ts" by simp
  then have "(length (usageErrors s) > 0) = (\<not> (errs = [] \<and> ts = []))" by auto
  with resp cpu ram ers
  show "\<exists>body. resp = JSON (if errs = [] \<and> ts = [] then 200 else 206) body
                 \<and> tu_TotalVMs body = length ts
                 \<and> tu_CPUCoresUsed body = 0 \<and> tu_RAMUsedGB body = 0
                 \<and> mset (tu_Errors body) = mset errs + mset (map (cancelError (Some e)) ts)"
    by (simp add: respond_def)
qed

theorem cancelled_before_start_witness:
  "env_ctxErr_dispatch expiredEnv = Some ''context deadline exceeded''
   \<and> aggregate expiredEnv [] (replicate 5 vmA) (cancelledOneByOne 5)
       = Some (JSON 206 \<lparr>tu_Timestamp = ''2024-01-01T00:10:00Z'', tu_TotalVMs = 5,
                         tu_CPUCoresUsed = 0, tu_RAMUsedGB = 0,
                         tu_Errors = replicate 5
                           (cancelError (Some ''context deadline exceeded'') vmA)\<rparr>,
               [])
   \<and> (\<exists>sched r. aggregate expiredEnv [] (replicate 5 vmA) sched = Some r)"
proof -
  have h: "env_ctxErr_dispatch expiredEnv = Some ''context deadline exceeded''"
    by (simp add: expiredEnv_def)
  from cancelled_before_start[OF h, where errs = "[]" and ts = "replicate 5 vmA"] h
    aggregate_expired
  show ?thesis by blast
qed

text \<open>
  Claim C8 (bounded concurrency). In every state that a run of the workers reaches, at most
  \<open>semaphoreCapacity = 10\<close> workers hold a permit, and the channel holds exactly one element
  per such worker. Every step that calls \<^verbatim>\<open>GetMetricMeasures\<close> is the \<open>Vcpus\<close> or
  \<open>Memory\<close> step of a worker that holds a permit at that moment: it has acquired once and
  not released. A worker that is gone has acquired once and released once, whichever way
  it left its body, and when \<^verbatim>\<open>wg.Wait()\<close> returns the channel is empty.
\<close>

theorem bounded_concurrency:
  assumes "run env ts sched (dispatch errs c ts) = Some s"
  shows "semaphoreCapacity = 10
       \<and> length (filter holding (workers s)) \<le> semaphoreCapacity
       \<and> semaphore s = length (filter holding (workers s))
       \<and> (\<forall>pre e post. sched = pre @ e # post \<longrightarrow>
            (\<exists>s1 s2. run env ts pre (dispatch errs c ts) = Some s1
               \<and> step env ts e s1 = Some s2
               \<and> length (filter holding (workers s1)) \<le> semaphoreCapacity
               \<and> (measureCalls s2 = measureCalls s1
                    \<or> (\<exists>i < length ts. (e = Vcpus i \<or> e = Memory i)
                          \<and> holding (workers s1 ! i)
                          \<and> count_list pre (Acquire i) = 1
                          \<and> count_list pre (Release i) = 0))))
       \<and> (\<forall>i < length ts. isExited (workers s ! i) \<longrightarrow>
             count_list sched (Acquire i) = 1 \<and> count_list sched (Release i) = 1)
       \<and> (waitReturns s \<longrightarrow> semaphore s = 0)"
proof (intro conjI allI impI)
  show "semaphoreCapacity = 10" by (simp add: semaphoreCapacity_def)
  note inv = reachable_inv[OF assms]
  from inv show "length (filter holding (workers s)) \<le> semaphoreCapacity"
    unfolding fanout_inv_def by simp
  from inv show sem: "semaphore s = length (filter holding (workers s))"
    unfolding fanout_inv_def by simp
  {
    assume "waitReturns s"
    then have "filter holding (workers s) = []"
      by (auto simp: waitReturns_def list_all_iff filter_empty_conv isExited_def holding_def
            split: pc.splits)
    with sem show "semaphore s = 0" by simp
  }
  {
    fix i assume i: "i < length ts" and ex: "isExited (workers s ! i)"
    then have "workers s ! i \<noteq> Blocked" by (auto simp: isExited_def)
    with history[OF assms i] ex
    show "count_list sched (Acquire i) = 1" and "count_list sched (Release i) = 1" by simp_all
  }
  {
    fix pre e post assume dec: "sched = pre @ e # post"
    with assms obtain s1 s2 where s1: "run env ts pre (dispatch errs c ts) = Some s1"
      and s2: "step env ts e s1 = Some s2"
      by (auto simp: run_append split: option.splits)
    note inv1 = reachable_inv[OF s1]
    then have len: "length (workers s1) = length ts"
      and cap: "length (filter holding (workers s1)) \<le> semaphoreCapacity"
      unfolding fanout_inv_def by simp_all
    have "measureCalls s2 = measureCalls s1
            \<or> (\<exists>i < length ts. (e = Vcpus i \<or> e = Memory i)
                  \<and> holding (workers s1 ! i)
                  \<and> count_list pre (Acquire i) = 1
                  \<and> count_list pre (Release i) = 0)"
      using s2 len
    proof (cases rule: step_cases)
      case (vcpus i)
      with history[OF s1, of i] show ?thesis by (auto simp: holding_def isExited_def)
    next
      case (memory i)
      with history[OF s1, of i] show ?thesis by (auto simp: holding_def isExited_def)
    qed simp_all
    with s1 s2 cap
    show "\<exists>s1 s2. run env ts pre (dispatch errs c ts) = Some s1
               \<and> step env ts e s1 = Some s2
               \<and> length (filter holding (workers s1)) \<le> semaphoreCapacity
               \<and> (measureCalls s2 = measureCalls s1
                    \<or> (\<exists>i < length ts. (e = Vcpus i \<or> e = Memory i)
                          \<and> holding (workers s1 ! i)
                          \<and> count_list pre (Acquire i) = 1
                          \<and> count_list pre (Release i) = 0))"
      by blast
  }
qed

theorem bounded_concurrency_witness:
  "run (demoEnv repliesAB) [vmA, vmB] interleaved (dispatch [] None [vmA, vmB]) = Some finalAB
   \<and> interleaved = [Acquire 0, Acquire 1, CheckCtx 1, CheckCtx 0] @ Vcpus 1 # 
                     [Vcpus 0, Memory 0, Release 0, Memory 1, Release 1]
   \<and> run (demoEnv repliesAB) [vmA, vmB] [Acquire 0, Acquire 1, CheckCtx 1, CheckCtx 0]
         (dispatch [] None [vmA, vmB])
       = Some \<lparr>semaphore = 2, ctxErr = None, totalCPUCoresUsed = 0, totalRAMUsedGB = 0,
               usageErrors = [], workers = [AtVcpus, AtVcpus], measureCalls = []\<rparr>
   \<and> length (filter holding [AtVcpus, AtVcpus]) = 2
   \<and> length (filter holding (workers finalAB)) \<le> semaphoreCapacity
   \<and> semaphore finalAB = length (filter holding (workers finalAB))
   \<and> waitReturns finalAB \<and> semaphore finalAB = 0
   \<and> count_list interleaved (Acquire 1) = 1 \<and> count_list interleaved (Release 1) = 1"
proof -
  have pre: "run (demoEnv repliesAB) [vmA, vmB] [Acquire 0, Acquire 1, CheckCtx 1, CheckCtx 0]
         (dispatch [] None [vmA, vmB])
       = Some \<lparr>semaphore = 2, ctxErr = None, totalCPUCoresUsed = 0, totalRAMUsedGB = 0,
               usageErrors = [], workers = [AtVcpus, AtVcpus], measureCalls = []\<rparr>"
    by (simp add: fanout_defs demo_defs)
  have w: "waitReturns finalAB" by (simp add: waitReturns_def finalAB_def isExited_def)
  from bounded_concurrency[OF run_interleaved] run_interleaved pre w show ?thesis
    by (simp add: finalAB_def interleaved_def holding_def)
qed

text \<open>
  Claim C9 (empty sample sequence). When the key of a metric is present and the call
  succeeds with no measure, the block appends no error and adds nothing, and every answer
  of the handler is the one it gives when the key is absent from the target; only the
  history of calls differs. A failing call, in contrast, appends exactly one error.
\<close>

theorem empty_series_is_silent:
  assumes "i < length ts"
    and "gi_Metrics (t_Instance (ts ! i)) key = Some m"
    and "env_GetMetricMeasures env i m = Inr []"
  shows "map_option fst (aggregate env errs (ts[i := dropMetric key (ts ! i)]) sched)
           = map_option fst (aggregate env errs ts sched)
       \<and> (key = ''vcpus'' \<longrightarrow>
            vcpusPhase env i (ts ! i) s = s\<lparr>measureCalls := measureCalls s @ [(i, m)]\<rparr>
          \<and> vcpusPhase env i (dropMetric key (ts ! i)) s = s)
       \<and> (key = ''memory'' \<longrightarrow>
            memoryPhase env i (ts ! i) s = s\<lparr>measureCalls := measureCalls s @ [(i, m)]\<rparr>
          \<and> memoryPhase env i (dropMetric key (ts ! i)) s = s)
       \<and> (\<forall>env' err. env_GetMetricMeasures env' i m = Inl err \<longrightarrow>
            (key = ''vcpus'' \<longrightarrow>
               vcpusPhase env' i (ts ! i) s
                 = s\<lparr>measureCalls := measureCalls s @ [(i, m)],
                     usageErrors := usageErrors s @ [measuresError ''vcpus'' (ts ! i) err]\<rparr>)
          \<and> (key = ''memory'' \<longrightarrow>
               memoryPhase env' i (ts ! i) s
                 = s\<lparr>measureCalls := measureCalls s @ [(i, m)],
                     usageErrors := usageErrors s @ [measuresError ''memory'' (ts ! i) err]\<rparr>))"
proof (intro conjI allI impI)
  show "map_option fst (aggregate env errs (ts[i := dropMetric key (ts ! i)]) sched)
           = map_option fst (aggregate env errs ts sched)"
    by (rule aggregate_sim[OF dropMetric_same[OF assms]])
qed (use assms in \<open>simp_all add: vcpusPhase_def memoryPhase_def dropMetric_fields\<close>)

theorem empty_series_is_silent_witness:
  "0 < length [vmEmpty]
   \<and> gi_Metrics (t_Instance ([vmEmpty] ! 0)) ''memory'' = Some ''e-memory''
   \<and> env_GetMetricMeasures (demoEnv repliesEmpty) 0 ''e-memory'' = Inr []
   \<and> map_option fst (aggregate (demoEnv repliesEmpty) [] [dropMetric ''memory'' vmEmpty] (oneByOne 1))
       = Some (JSON 200 \<lparr>tu_Timestamp = ''2024-01-01T00:10:00Z'', tu_TotalVMs = 1,
                         tu_CPUCoresUsed = 4, tu_RAMUsedGB = 0, tu_Errors = []\<rparr>)
   \<and> aggregate (demoEnv repliesEmpty) [] [vmEmpty] (oneByOne 1)
       = Some (JSON 200 \<lparr>tu_Timestamp = ''2024-01-01T00:10:00Z'', tu_TotalVMs = 1,
                         tu_CPUCoresUsed = 4, tu_RAMUsedGB = 0, tu_Errors = []\<rparr>,
               [(0, ''e-vcpus''), (0, ''e-memory'')])"
proof -
  have h1: "0 < length [vmEmpty]" by simp
  have h2: "gi_Metrics (t_Instance ([vmEmpty] ! 0)) ''memory'' = Some ''e-memory''"
    by (simp add: vmEmpty_def demoTarget_def demoInstance_def)
  have h3: "env_GetMetricMeasures (demoEnv repliesEmpty) 0 ''e-memory'' = Inr []"
    by (simp add: demoEnv_def repliesEmpty_def)
  have a: "aggregate (demoEnv repliesEmpty) [] [vmEmpty] (oneByOne 1)
       = Some (JSON 200 \<lparr>tu_Timestamp = ''2024-01-01T00:10:00Z'', tu_TotalVMs = 1,
                         tu_CPUCoresUsed = 4, tu_RAMUsedGB = 0, tu_Errors = []\<rparr>,
               [(0, ''e-vcpus''), (0, ''e-memory'')])"
    by (simp add: aggregate_def oneByOne_def fanout_defs demo_defs vmEmpty_def repliesEmpty_def
          waitReturns_def isExited_def respond_def)
  from empty_series_is_silent[OF h1 h2 h3, of "[]" "oneByOne 1"] h1 h2 h3 a
  show ?thesis by simp
qed



end
